theory Spec2Isabelle
  imports Complex_Main "HOL-Library.Log_Nat" "HOL-Library.Multiset"
begin

section \<open>Strings\<close>

text \<open>
  Strings are lists of characters; a character stands for a code unit below 256. In that
  range the white space of \<^verbatim>\<open>String.prototype.trim\<close> and of the regular expression
  class \<^verbatim>\<open>\s\<close> is TAB, LF, VT, FF, CR, SPACE and NBSP.
\<close>

definition isWhiteSpace :: "char \<Rightarrow> bool" where
  "isWhiteSpace c =
     (c \<in> set [CHR 0x09, CHR 0x0A, CHR 0x0B, CHR 0x0C, CHR 0x0D, CHR 0x20, CHR 0xA0])"

definition trim :: "string \<Rightarrow> string" where
  "trim s = rev (dropWhile isWhiteSpace (rev (dropWhile isWhiteSpace s)))"

definition startsWith :: "string \<Rightarrow> string \<Rightarrow> bool" where
  "startsWith s p = (take (length p) s = p)"

definition endsWith :: "string \<Rightarrow> string \<Rightarrow> bool" where
  "endsWith s p = (length p \<le> length s \<and> drop (length s - length p) s = p)"

text \<open>\<^verbatim>\<open>Number.prototype.toString\<close> on a non-negative integer: its decimal digits.\<close>

definition digit_char :: "nat \<Rightarrow> char" where
  "digit_char d = ''0123456789'' ! d"

fun toString :: "nat \<Rightarrow> string" where
  "toString n = (if n < 10 then [digit_char n] else toString (n div 10) @ [digit_char (n mod 10)])"

declare toString.simps [simp del]

text \<open>\<^verbatim>\<open>Array.prototype.join\<close> on a list of strings.\<close>

fun join :: "string list \<Rightarrow> string \<Rightarrow> string" where
  "join [] sep = []"
| "join [x] sep = x"
| "join (x # y # ys) sep = x @ sep @ join (y # ys) sep"

section \<open>Domain types (types.ts)\<close>

datatype FieldType = TEXT | NUMBER | DATE | TEXTAREA | FILE | SELECT

record UIField =
  field_id :: string
  field_type :: FieldType
  label :: string
  placeholder :: "string option"
  options :: "string list option"
  description :: "string option"
  required :: "bool option"

text \<open>
  A grounding link is built from metadata of the inference service in which the address
  may be missing, so \<open>uri\<close> is optional here (\<open>None\<close> is \<^verbatim>\<open>undefined\<close>).
\<close>

record GroundingLink =
  uri :: "string option"
  title :: string

text \<open>
  The reply of the controller, as \<^verbatim>\<open>JSON.parse(...) as AIResponse\<close> delivers it: an
  object whose keys are all optional at run time (the cast checks nothing), and whose
  \<open>status\<close> is whatever string the model wrote.
\<close>

record AIResponse =
  status :: "string option"
  message :: "string option"
  reply_fields :: "UIField list option"
  analysis :: "string option"
  final_output :: "string option"
  key_references :: "string list option"
  grounding_links :: "GroundingLink list option"

record Attachment =
  mimeType :: string
  data :: string

datatype Role = user | ai

record ChatMessage =
  msg_id :: string
  role :: Role
  content :: "string option"
  uiFields :: "UIField list option"
  msg_analysis :: "string option"
  msg_final_output :: "string option"
  msg_formData :: "(string \<times> string) list option"
  groundingLinks :: "GroundingLink list option"
  attachments :: "Attachment list option"

text \<open>
  A browser \<^verbatim>\<open>File\<close>: its name, its MIME type, and what \<^verbatim>\<open>fileToBase64\<close> resolves
  to for it (\<open>None\<close> when the reader reports an error and the promise is rejected).
\<close>

record File =
  file_name :: string
  file_type :: string
  file_base64 :: "string option"

section \<open>The inference service (services/geminiService.ts)\<close>

datatype Part = TextPart string | InlineData Attachment

record Content =
  turn_role :: string
  parts :: "Part list"

datatype Tool = googleSearch | urlContext

text \<open>
  The argument of \<^verbatim>\<open>ai.models.generateContent\<close>. The entries of \<^verbatim>\<open>config\<close> that are
  the same in every call (system instruction, response schema and MIME type, media
  resolution) are not carried.
\<close>

record Request =
  req_model :: string
  req_contents :: "Content list"
  req_tools :: "Tool list"
  req_temperature :: nat
  req_thinkingLevel :: string

record WebChunk =
  web_uri :: "string option"
  web_title :: "string option"

record GroundingChunk =
  web :: "WebChunk option"

record UrlMetadata =
  retrievedUrl :: "string option"
  retrieved_url :: "string option"

text \<open>
  What the service answers: \<^verbatim>\<open>response.text\<close>, and the two optional chains
  \<^verbatim>\<open>response.candidates?.[0]?.groundingMetadata?.groundingChunks\<close> and
  \<^verbatim>\<open>response.candidates?.[0]?.urlContextMetadata?.urlMetadata\<close> (\<open>None\<close> when a link
  of the chain is missing).
\<close>

record Response =
  resp_text :: "string option"
  groundingChunks :: "GroundingChunk list option"
  urlMetadata :: "UrlMetadata list option"

text \<open>
  The errors \<open>sendMessageToGemini\<close> ends with: the rejection of the remote call, the two
  errors it makes itself ("Null response from inference engine." and "Model failed to
  adhere to the requested response schema."), and the \<^verbatim>\<open>TypeError\<close> of the language.
\<close>

datatype Error = InferenceFailure | NullResponse | SchemaViolation | TypeError

text \<open>
  What \<^verbatim>\<open>JSON.parse\<close> returns: \<^verbatim>\<open>null\<close>, a primitive (a number, a string or a boolean),
  or an object, of which the properties that the code reads are kept, at the types that
  \<^verbatim>\<open>types.ts\<close> declares (an array is an object with none of them).
\<close>

datatype JSON = JSON_null | JSON_primitive | JSON_object AIResponse

text \<open>
  The runtime the service runs in: the remote call (\<open>None\<close> when its promise is
  rejected), \<^verbatim>\<open>JSON.parse\<close> (\<open>None\<close> when it throws) and \<^verbatim>\<open>JSON.stringify\<close>.
\<close>

record Runtime =
  generateContent :: "Request \<Rightarrow> Response option"
  JSON_parse :: "string \<Rightarrow> JSON option"
  JSON_stringify :: "AIResponse \<Rightarrow> string"

definition fence :: string where
  "fence = [CHR 0x60, CHR 0x60, CHR 0x60]"

definition cleanJsonOutput :: "string \<Rightarrow> string" where
  "cleanJsonOutput txt =
     (let cleaned = trim txt;
          stripEnd = (\<lambda>s. if endsWith s fence then take (length s - 3) s else s);
          cleaned' =
            (if startsWith cleaned (fence @ ''json'') then stripEnd (drop 7 cleaned)
             else if startsWith cleaned fence then stripEnd (drop 3 cleaned)
             else cleaned)
      in trim cleaned')"

record NewInput =
  input_text :: "string option"
  input_files :: "Attachment list option"

definition currentParts :: "NewInput \<Rightarrow> Part list" where
  "currentParts newInput =
     (case input_text newInput of
        None \<Rightarrow> []
      | Some t \<Rightarrow> if t = [] then [] else [TextPart t]) @
     (case input_files newInput of
        None \<Rightarrow> []
      | Some fs \<Rightarrow> map InlineData fs)"

text \<open>
  The regular expression \<^verbatim>\<open>/(https?:\/\/[^\s]+)/g\<close>, made anew in every call, so that
  \<^verbatim>\<open>test\<close> starts at index 0: \<open>urlRegex_at\<close> is a match that starts at the head of the
  string, \<open>urlRegex_test\<close> a match anywhere.
\<close>

definition urlRegex_at :: "string \<Rightarrow> bool" where
  "urlRegex_at s =
     ((startsWith s ''http://'' \<and> 7 < length s \<and> \<not> isWhiteSpace (s ! 7)) \<or>
      (startsWith s ''https://'' \<and> 8 < length s \<and> \<not> isWhiteSpace (s ! 8)))"

fun urlRegex_test :: "string \<Rightarrow> bool" where
  "urlRegex_test [] = False"
| "urlRegex_test (c # cs) = (urlRegex_at (c # cs) \<or> urlRegex_test cs)"

definition hasUrl :: "NewInput \<Rightarrow> bool" where
  "hasUrl newInput =
     (case input_text newInput of
        None \<Rightarrow> False
      | Some t \<Rightarrow> t \<noteq> [] \<and> urlRegex_test t)"

definition tools :: "NewInput \<Rightarrow> Tool list" where
  "tools newInput = [googleSearch] @ (if hasUrl newInput then [urlContext] else [])"

text \<open>\<^verbatim>\<open>modelName.includes("flash")\<close>.\<close>

fun includes_str :: "string \<Rightarrow> string \<Rightarrow> bool" where
  "includes_str [] p = (p = [])"
| "includes_str (c # cs) p = (startsWith (c # cs) p \<or> includes_str cs p)"

definition level :: "string \<Rightarrow> string" where
  "level modelName = (if includes_str modelName ''flash'' then ''MEDIUM'' else ''HIGH'')"

definition request :: "Content list \<Rightarrow> NewInput \<Rightarrow> string \<Rightarrow> Request" where
  "request history newInput modelName =
     \<lparr> req_model = modelName,
       req_contents = history @ [\<lparr> turn_role = ''user'', parts = currentParts newInput \<rparr>],
       req_tools = tools newInput,
       req_temperature = 1,
       req_thinkingLevel = level modelName \<rparr>"

text \<open>\<^verbatim>\<open>a || b\<close> on optional strings: the empty string is falsy as \<^verbatim>\<open>undefined\<close> is.\<close>

definition truthy :: "string option \<Rightarrow> bool" where
  "truthy v = (case v of None \<Rightarrow> False | Some s \<Rightarrow> s \<noteq> [])"

definition links :: "GroundingChunk list \<Rightarrow> GroundingLink list" where
  "links chunks =
     map (\<lambda>chunk. \<lparr> uri = web_uri (the (web chunk)),
                    title = (if truthy (web_title (the (web chunk)))
                             then the (web_title (the (web chunk)))
                             else ''External Source'') \<rparr>)
       (filter (\<lambda>chunk. web chunk \<noteq> None) chunks)"

definition urlLinks :: "UrlMetadata list \<Rightarrow> GroundingLink list" where
  "urlLinks metas =
     map (\<lambda>m. \<lparr> uri = (if truthy (retrievedUrl m) then retrievedUrl m else retrieved_url m),
                title = ''Retrieved Page Context'' \<rparr>) metas"

text \<open>
  The part of \<open>sendMessageToGemini\<close> that runs once the service has answered. Only the
  call of \<^verbatim>\<open>JSON.parse\<close> is inside the inner \<^verbatim>\<open>try\<close>. After it,
  \<^verbatim>\<open>jsonResponse.grounding_links\<close> is read, which throws a \<^verbatim>\<open>TypeError\<close> on \<^verbatim>\<open>null\<close>; on a
  primitive the property is \<^verbatim>\<open>undefined\<close>, and the assignment that follows throws a
  \<^verbatim>\<open>TypeError\<close>, the code of a module being strict. The outer \<^verbatim>\<open>catch\<close> throws the error
  on.
\<close>

definition receive :: "Runtime \<Rightarrow> Response \<Rightarrow> Error + AIResponse" where
  "receive rt response =
     (if \<not> truthy (resp_text response) then Inl NullResponse
      else case JSON_parse rt (cleanJsonOutput (the (resp_text response))) of
        None \<Rightarrow> Inl SchemaViolation
      | Some JSON_null \<Rightarrow> Inl TypeError
      | Some JSON_primitive \<Rightarrow> Inl TypeError
      | Some (JSON_object jsonResponse) \<Rightarrow>
          Inr (jsonResponse \<lparr> grounding_links := Some
            ((case grounding_links jsonResponse of None \<Rightarrow> [] | Some ls \<Rightarrow> ls) @
             (case groundingChunks response of None \<Rightarrow> [] | Some chunks \<Rightarrow> links chunks) @
             (case urlMetadata response of None \<Rightarrow> [] | Some metas \<Rightarrow> urlLinks metas)) \<rparr>))"

definition sendMessageToGemini ::
  "Runtime \<Rightarrow> Content list \<Rightarrow> NewInput \<Rightarrow> string \<Rightarrow> Error + AIResponse" where
  "sendMessageToGemini rt history newInput modelName =
     (case generateContent rt (request history newInput modelName) of
        None \<Rightarrow> Inl InferenceFailure
      | Some response \<Rightarrow> receive rt response)"

section \<open>The application state and the send pipeline (App)\<close>

record AppState =
  messages :: "ChatMessage list"
  input :: string
  isLoading :: bool
  loadingStep :: string
  aiHistory :: "Content list"
  stagedFiles :: "File list"

definition initMessage :: ChatMessage where
  "initMessage =
     \<lparr> msg_id = ''init'', role = ai,
       content = Some (''What's your goal? Describe what you're working on or a problem '' @
         ''you're facing, and I'll help you give me the right context for better AI answers.''),
       uiFields = None, msg_analysis = None, msg_final_output = None, msg_formData = None,
       groundingLinks = None, attachments = None \<rparr>"

definition initialState :: AppState where
  "initialState =
     \<lparr> messages = [initMessage], input = [], isLoading = False,
       loadingStep = ''Thinking...'', aiHistory = [], stagedFiles = [] \<rparr>"

definition resetChat :: "AppState \<Rightarrow> AppState" where
  "resetChat s = initialState"

text \<open>
  \<^verbatim>\<open>Promise.all(allFiles.map(...))\<close>: the encoded files in order, or \<open>None\<close> when one of
  the reads is rejected.
\<close>

fun processedFiles :: "File list \<Rightarrow> Attachment list option" where
  "processedFiles [] = Some []"
| "processedFiles (f # fs) =
     (case file_base64 f of
        None \<Rightarrow> None
      | Some d \<Rightarrow>
          (case processedFiles fs of
             None \<Rightarrow> None
           | Some as \<Rightarrow> Some (\<lparr> mimeType = file_type f, data = d \<rparr> # as)))"

definition newUserMsg :: "nat \<Rightarrow> string \<Rightarrow> File list \<Rightarrow> Attachment list \<Rightarrow> ChatMessage" where
  "newUserMsg now txt allFiles processed =
     \<lparr> msg_id = toString now, role = user, content = Some txt,
       uiFields = None, msg_analysis = None, msg_final_output = None,
       msg_formData =
         (if length allFiles > 0
          then Some [(''Attachments'', join (map file_name allFiles) '', '')]
          else None),
       groundingLinks = None,
       attachments = Some processed \<rparr>"

text \<open>
  The call that \<open>handleSend\<close> is waiting for, with the variables of its closure that the
  rest of the function reads: \<^verbatim>\<open>text\<close>, \<^verbatim>\<open>processedFiles\<close>, and the history and
  model name handed to \<open>sendMessageToGemini\<close>.
\<close>

record Pending =
  pend_text :: string
  pend_files :: "Attachment list"
  pend_history :: "Content list"
  pend_model :: string

definition pend_input :: "Pending \<Rightarrow> NewInput" where
  "pend_input p = \<lparr> input_text = Some (pend_text p), input_files = Some (pend_files p) \<rparr>"

definition pend_request :: "Pending \<Rightarrow> Request" where
  "pend_request p = request (pend_history p) (pend_input p) (pend_model p)"

text \<open>
  \<open>handleSend\<close> up to the point where it waits for the service: it returns at once
  (\<open>Returned\<close>), or its promise is rejected by a failed file read before anything is set
  (\<open>Rejected\<close>), or it commits the user's message, raises the loading flag and issues
  the request (\<open>Awaiting\<close>, with the state after the setters).
\<close>

datatype Started = Returned | Rejected | Awaiting AppState Pending

definition handleSend_start ::
  "nat \<Rightarrow> AppState \<Rightarrow> string \<Rightarrow> File list \<Rightarrow> string \<Rightarrow> string option \<Rightarrow> Started" where
  "handleSend_start now s txt files modelName loadingOverride =
     (let allFiles = files @ stagedFiles s in
      if trim txt = [] \<and> length allFiles = 0 then Returned
      else
        let isFirstStep = (length (messages s) \<le> 1);
            defaultLoadingText =
              (if isFirstStep then ''Generating visual interface...''
               else ''Let me think about it...'');
            currentLoadingText =
              (if truthy loadingOverride then the loadingOverride else defaultLoadingText)
        in case processedFiles allFiles of
             None \<Rightarrow> Rejected
           | Some processed \<Rightarrow>
               Awaiting
                 (s \<lparr> messages := messages s @ [newUserMsg now txt allFiles processed],
                      input := [],
                      stagedFiles := [],
                      isLoading := True,
                      loadingStep := currentLoadingText \<rparr>)
                 \<lparr> pend_text = txt, pend_files = processed,
                   pend_history = aiHistory s, pend_model = modelName \<rparr>)"

definition userTurn :: "Pending \<Rightarrow> Content" where
  "userTurn p =
     \<lparr> turn_role = ''user'', parts = TextPart (pend_text p) # map InlineData (pend_files p) \<rparr>"

definition modelTurn :: "Runtime \<Rightarrow> AIResponse \<Rightarrow> Content" where
  "modelTurn rt aiResponse =
     \<lparr> turn_role = ''model'', parts = [TextPart (JSON_stringify rt aiResponse)] \<rparr>"

definition newAiMsg :: "nat \<Rightarrow> AIResponse \<Rightarrow> ChatMessage" where
  "newAiMsg now aiResponse =
     \<lparr> msg_id = toString (now + 1), role = ai, content = message aiResponse,
       uiFields = (if status aiResponse = Some ''COLLECTING'' then reply_fields aiResponse else None),
       msg_analysis = (if status aiResponse = Some ''COMPLETE'' then analysis aiResponse else None),
       msg_final_output =
         (if status aiResponse = Some ''COMPLETE'' then final_output aiResponse else None),
       msg_formData = None,
       groundingLinks = grounding_links aiResponse,
       attachments = None \<rparr>"

definition fallbackMsg :: "nat \<Rightarrow> ChatMessage" where
  "fallbackMsg now =
     \<lparr> msg_id = toString now, role = ai,
       content = Some ''I ran into a small issue. Could you try re-stating your goal?'',
       uiFields = None, msg_analysis = None, msg_final_output = None, msg_formData = None,
       groundingLinks = None, attachments = None \<rparr>"

text \<open>
  The rest of \<open>handleSend\<close>, run when the awaited call settles: the \<^verbatim>\<open>try\<close> body after
  the call, the \<^verbatim>\<open>catch\<close> and the \<^verbatim>\<open>finally\<close>. The setters take the state of that
  moment (\<^verbatim>\<open>prev => [...prev, ...]\<close>).
\<close>

definition handleSend_settle ::
  "Runtime \<Rightarrow> nat \<Rightarrow> AppState \<Rightarrow> Pending \<Rightarrow> Error + AIResponse \<Rightarrow> AppState" where
  "handleSend_settle rt now s p outcome =
     (case outcome of
        Inr aiResponse \<Rightarrow>
          s \<lparr> aiHistory := aiHistory s @ [userTurn p, modelTurn rt aiResponse],
               messages := messages s @ [newAiMsg now aiResponse],
               isLoading := False,
               loadingStep := ''Thinking...'' \<rparr>
      | Inl e \<Rightarrow>
          s \<lparr> messages := messages s @ [fallbackMsg now],
               isLoading := False,
               loadingStep := ''Thinking...'' \<rparr>)"

text \<open>
  One whole run of \<open>handleSend\<close> with nothing else happening in between: the final state
  and the requests that went to the service. \<open>now\<close> and \<open>now'\<close> are the readings of
  \<^verbatim>\<open>Date.now()\<close> before and after the call.
\<close>

definition handleSend ::
  "Runtime \<Rightarrow> nat \<Rightarrow> nat \<Rightarrow> AppState \<Rightarrow> string \<Rightarrow> File list \<Rightarrow> string \<Rightarrow> string option
     \<Rightarrow> AppState \<times> Request list" where
  "handleSend rt now now' s txt files modelName loadingOverride =
     (case handleSend_start now s txt files modelName loadingOverride of
        Returned \<Rightarrow> (s, [])
      | Rejected \<Rightarrow> (s, [])
      | Awaiting s' p \<Rightarrow>
          (handleSend_settle rt now' s' p
             (sendMessageToGemini rt (pend_history p) (pend_input p) (pend_model p)),
           [pend_request p]))"

section \<open>Objects as records of properties\<close>

text \<open>
  A plain object (\<^verbatim>\<open>Record<string, ...>\<close>) is the list of its own properties in the order
  of their creation, with distinct keys. Its keys are enumerated (\<^verbatim>\<open>Object.keys\<close>,
  \<^verbatim>\<open>Object.values\<close>, \<^verbatim>\<open>Object.entries\<close>, object spread) in the order of
  \<^verbatim>\<open>[[OwnPropertyKeys]]\<close>: first the keys that are array indices (the decimal
  rendering of an integer below \<open>2^32 - 1\<close>), by ascending value, then the other keys in
  the order of their creation.
\<close>

type_synonym 'v Obj = "(string \<times> 'v) list"

definition digitValue :: "char \<Rightarrow> nat" where
  "digitValue c = length (takeWhile (\<lambda>d. d \<noteq> c) ''0123456789'')"

definition numValue :: "string \<Rightarrow> nat" where
  "numValue k = foldl (\<lambda>n c. 10 * n + digitValue c) 0 k"

definition isArrayIndex :: "string \<Rightarrow> bool" where
  "isArrayIndex k = (toString (numValue k) = k \<and> numValue k < 4294967295)"

definition entries :: "'v Obj \<Rightarrow> 'v Obj" where
  "entries obj =
     sort_key (\<lambda>p. numValue (fst p)) (filter (\<lambda>p. isArrayIndex (fst p)) obj) @
     filter (\<lambda>p. \<not> isArrayIndex (fst p)) obj"


definition Object_values :: "'v Obj \<Rightarrow> 'v list" where
  "Object_values obj = map snd (entries obj)"

text \<open>\<^verbatim>\<open>obj[k]\<close>, with \<open>None\<close> for \<^verbatim>\<open>undefined\<close>.\<close>

definition getProp :: "'v Obj \<Rightarrow> string \<Rightarrow> 'v option" where
  "getProp obj k = map_of obj k"

text \<open>
  Defining the property \<open>k\<close>: a property the object has keeps its place and takes the
  new value, a new one is created last.
\<close>

fun setProp :: "'v Obj \<Rightarrow> string \<Rightarrow> 'v \<Rightarrow> 'v Obj" where
  "setProp [] k v = [(k, v)]"
| "setProp (p # ps) k v = (if fst p = k then (k, v) # ps else p # setProp ps k v)"

text \<open>\<^verbatim>\<open>{ ...prev, [k]: v }\<close>: a new object with the properties of \<open>prev\<close>, copied in
  the order of their enumeration, and then \<open>k\<close>.\<close>

definition spreadWith :: "'v Obj \<Rightarrow> string \<Rightarrow> 'v \<Rightarrow> 'v Obj" where
  "spreadWith prev k v = setProp (entries prev) k v"

section \<open>The dynamic form (GenerativeForm)\<close>

text \<open>
  The values the controls hand to \<open>handleChange\<close> are strings (typed text, a chosen
  option, the name of a file) or \<^verbatim>\<open>null\<close> (a removed file), here \<open>None\<close>.
\<close>

record FormState =
  formData :: "string option Obj"
  fileData :: "File Obj"
  additionalText :: string
  additionalFiles :: "File list"

definition initialForm :: FormState where
  "initialForm = \<lparr> formData = [], fileData = [], additionalText = [], additionalFiles = [] \<rparr>"

definition handleChange :: "FormState \<Rightarrow> string \<Rightarrow> string option \<Rightarrow> File option \<Rightarrow> FormState" where
  "handleChange f k v file =
     (let f' = f \<lparr> formData := spreadWith (formData f) k v \<rparr>
      in case file of
           None \<Rightarrow> f'
         | Some fl \<Rightarrow> f' \<lparr> fileData := spreadWith (fileData f) k fl \<rparr>)"

text \<open>\<open>handleDrop\<close> and \<open>handleManualFileSelect\<close> on the extra-files zone.\<close>

definition handleDrop :: "FormState \<Rightarrow> File list \<Rightarrow> FormState" where
  "handleDrop f dropped =
     (if length dropped > 0 then f \<lparr> additionalFiles := additionalFiles f @ dropped \<rparr> else f)"

definition removeAdditionalFile :: "FormState \<Rightarrow> nat \<Rightarrow> FormState" where
  "removeAdditionalFile f indexToRemove =
     f \<lparr> additionalFiles :=
           map snd (filter (\<lambda>p. fst p \<noteq> indexToRemove)
                      (zip [0 ..< length (additionalFiles f)] (additionalFiles f))) \<rparr>"

definition handleDictation :: "FormState \<Rightarrow> string \<Rightarrow> FormState" where
  "handleDictation f t =
     f \<lparr> additionalText :=
           (if trim (additionalText f) \<noteq> [] then additionalText f @ '' '' @ t else t) \<rparr>"

text \<open>\<open>handleSubmit\<close>: the arguments it calls \<^verbatim>\<open>onSubmit\<close> with.\<close>

definition handleSubmit :: "FormState \<Rightarrow> bool \<Rightarrow> string option Obj \<times> File list \<times> bool" where
  "handleSubmit f useTurbo =
     (let dynamicFiles = Object_values (fileData f);
          allFiles = dynamicFiles @ additionalFiles f;
          finalData = spreadWith (formData f) ''additional_text'' (Some (additionalText f))
      in (finalData, allFiles, useTurbo))"

text \<open>The interactions with an open form, and the state they lead to.\<close>

datatype FormEvent =
    Change string "string option" "File option"
  | Drop "File list"
  | RemoveAdditional nat
  | TypeNotes string
  | Dictate string

fun formStep :: "FormState \<Rightarrow> FormEvent \<Rightarrow> FormState" where
  "formStep f (Change k v file) = handleChange f k v file"
| "formStep f (Drop dropped) = handleDrop f dropped"
| "formStep f (RemoveAdditional i) = removeAdditionalFile f i"
| "formStep f (TypeNotes t) = f \<lparr> additionalText := t \<rparr>"
| "formStep f (Dictate t) = handleDictation f t"

definition formAfter :: "FormEvent list \<Rightarrow> FormState" where
  "formAfter evs = foldl formStep initialForm evs"

section \<open>Numbers\<close>

text \<open>
  A number is an IEEE 754 double; a finite double is written as the rational it denotes.
  \<open>fl64\<close> is the rounding of an exact result to the nearest double, ties to the even
  mantissa, as division and multiplication perform it; it is exact about doubles whose
  magnitude lies in the normal range, from \<open>2^-1022\<close> up to \<open>2^1024\<close>. \<open>ilog2 x\<close> is the
  exponent \<open>e\<close> with \<open>2^e \<le> x < 2^(e+1)\<close> of a positive \<open>x\<close>, and a double has 53
  significant bits, so the doubles around \<open>x\<close> are the multiples of \<open>2^(e-52)\<close>.
\<close>

definition ilog2 :: "rat \<Rightarrow> int" where
  "ilog2 x = (if 1 \<le> x then bitlen \<lfloor>x\<rfloor> - 1 else - bitlen (\<lceil>1 / x\<rceil> - 1))"

definition roundHalfEven :: "rat \<Rightarrow> int" where
  "roundHalfEven q =
     (let f = \<lfloor>q\<rfloor>; r = q - of_int f
      in if r < 1 / 2 then f else if 1 / 2 < r then f + 1 else if even f then f else f + 1)"

definition fl64 :: "rat \<Rightarrow> rat" where
  "fl64 x =
     (if x = 0 then 0
      else let u = 2 powi (ilog2 \<bar>x\<bar> - 52)
           in sgn x * of_int (roundHalfEven (\<bar>x\<bar> / u)) * u)"


section \<open>The completion indicator (GenerativeForm)\<close>



section \<open>Entry points of the send pipeline (App)\<close>

text \<open>The \<^verbatim>\<open>disabled\<close> attribute of the submit button.\<close>

definition submitDisabled :: "AppState \<Rightarrow> bool" where
  "submitDisabled s = ((trim (input s) = [] \<and> length (stagedFiles s) = 0) \<or> isLoading s)"

text \<open>
  The three ways into \<open>handleSend\<close>, up to the point where the call waits for the
  service. A click on a disabled button raises no event; the key handler of the text
  area calls \<open>handleSend\<close> on Enter without Shift.
\<close>

definition form_onSubmit :: "nat \<Rightarrow> AppState \<Rightarrow> Started" where
  "form_onSubmit now s = handleSend_start now s (input s) [] ''gemini-3-flash-preview'' None"

definition submitButton_click :: "nat \<Rightarrow> AppState \<Rightarrow> Started" where
  "submitButton_click now s = (if submitDisabled s then Returned else form_onSubmit now s)"

definition textarea_onKeyDown :: "nat \<Rightarrow> AppState \<Rightarrow> string \<Rightarrow> bool \<Rightarrow> Started" where
  "textarea_onKeyDown now s key shiftKey =
     (if key = ''Enter'' \<and> \<not> shiftKey
      then handleSend_start now s (input s) [] ''gemini-3-flash-preview'' None
      else Returned)"

text \<open>A value inside a template literal: \<^verbatim>\<open>null\<close> prints as "null".\<close>

definition render :: "string option \<Rightarrow> string" where
  "render v = (case v of None \<Rightarrow> ''null'' | Some s \<Rightarrow> s)"

definition handleFormSubmit ::
  "nat \<Rightarrow> AppState \<Rightarrow> string option Obj \<Rightarrow> File list \<Rightarrow> bool \<Rightarrow> Started" where
  "handleFormSubmit now s formdata files useTurbo =
     (let additional = (case getProp formdata ''additional_text'' of None \<Rightarrow> None | Some v \<Rightarrow> v);
          summaryParts =
            (if length files > 0 then [toString (length files) @ '' attachment(s)''] else []) @
            (if truthy additional then [''additional details''] else []);
          summary = ''Here is the user provided context'' @
            (if length summaryParts > 0 then '' ('' @ join summaryParts '', '' @ '')'' else []) @
            '':'';
          dataString =
            join (map (\<lambda>p. fst p @ '': '' @ render (snd p))
                    (filter (\<lambda>p. fst p \<noteq> ''additional_text'') (entries formdata)))
                 [CHR 0x0A];
          finalMessage = summary @ [CHR 0x0A, CHR 0x0A] @
            (if truthy additional then ''Extra info: '' @ the additional @ [CHR 0x0A] else []) @
            [CHR 0x0A] @ ''Details:'' @ [CHR 0x0A] @ dataString;
          model = (if useTurbo then ''gemini-3-pro-preview'' else ''gemini-3-flash-preview'')
      in handleSend_start now s finalMessage files model (Some ''Thinking and Analyzing...''))"

text \<open>
  The form of a message is on screen when the message is the last of the log, comes from
  the assistant and has a descriptor list; the buttons of a form that is not on screen
  cannot be clicked.
\<close>

definition formShown :: "AppState \<Rightarrow> bool" where
  "formShown s =
     (messages s \<noteq> [] \<and> role (last (messages s)) = ai \<and> uiFields (last (messages s)) \<noteq> None)"

definition formButton_click :: "nat \<Rightarrow> AppState \<Rightarrow> FormState \<Rightarrow> bool \<Rightarrow> Started" where
  "formButton_click now s f useTurbo =
     (if formShown s
      then (case handleSubmit f useTurbo of
              (finalData, allFiles, turbo) \<Rightarrow> handleFormSubmit now s finalData allFiles turbo)
      else Returned)"

section \<open>Sample inputs\<close>

text \<open>
  A runtime for worked examples: the service gives the same answer to every request
  (\<open>None\<close>: the call is rejected); \<^verbatim>\<open>JSON.parse\<close> is given by a table from texts to the
  values they denote, and a text the table does not list does not parse;
  \<^verbatim>\<open>JSON.stringify\<close> is given by a table from objects to their texts.
\<close>

definition stubRuntime ::
  "Response option \<Rightarrow> (string \<times> JSON) list \<Rightarrow> (AIResponse \<times> string) list \<Rightarrow> Runtime" where
  "stubRuntime answer parses prints =
     \<lparr> generateContent = (\<lambda>r. answer), JSON_parse = map_of parses,
       JSON_stringify = (\<lambda>r. case map_of prints r of None \<Rightarrow> [] | Some t \<Rightarrow> t) \<rparr>"

definition destinationField :: UIField where
  "destinationField = \<lparr> field_id = ''destination'', field_type = TEXT, label = ''Destination'',
     placeholder = None, options = None, description = None, required = Some True \<rparr>"

definition datesField :: UIField where
  "datesField = \<lparr> field_id = ''dates'', field_type = DATE, label = ''Travel dates'',
     placeholder = None, options = None, description = None, required = None \<rparr>"

text \<open>
  A reply that asks for more context (with a stray analysis), its JSON text, the answer
  of the service that wraps the text in a markdown fence, and the text of the reply once
  the empty link list is added.
\<close>

definition collectingReply :: AIResponse where
  "collectingReply = \<lparr> status = Some ''COLLECTING'', message = Some ''Where to?'',
     reply_fields = Some [destinationField, datesField], analysis = Some ''stray'',
     final_output = None, key_references = None, grounding_links = None \<rparr>"

definition collectingText :: string where
  \<open>collectingText =
     ''{"status":"COLLECTING","message":"Where to?","fields":['' @
     ''{"id":"destination","type":"text","label":"Destination","required":true},'' @
     ''{"id":"dates","type":"date","label":"Travel dates"}],"analysis":"stray"}''\<close>

definition collectingAnswer :: string where
  "collectingAnswer = fence @ ''json'' @ [CHR 0x0A] @ collectingText @ [CHR 0x0A] @ fence"

definition collectingStored :: string where
  \<open>collectingStored =
     ''{"status":"COLLECTING","message":"Where to?","fields":['' @
     ''{"id":"destination","type":"text","label":"Destination","required":true},'' @
     ''{"id":"dates","type":"date","label":"Travel dates"}],"analysis":"stray",'' @
     ''"grounding_links":[]}''\<close>

definition completeReply :: AIResponse where
  "completeReply = \<lparr> status = Some ''COMPLETE'', message = Some ''Done.'',
     reply_fields = Some [destinationField], analysis = Some ''Reasoning'',
     final_output = Some ''Itinerary'', key_references = None, grounding_links = None \<rparr>"

definition textResponse :: "string \<Rightarrow> Response" where
  "textResponse t = \<lparr> resp_text = Some t, groundingChunks = None, urlMetadata = None \<rparr>"

definition flash :: string where
  "flash = ''gemini-3-flash-preview''"

text \<open>
  The first send of a conversation, "Plan a trip" with no files at clock reading 5: the
  state while the request is out, and the call being waited for.
\<close>

definition tripPending :: Pending where
  "tripPending = \<lparr> pend_text = ''Plan a trip'', pend_files = [], pend_history = [],
         pend_model = flash \<rparr>"

definition tripLoading :: AppState where
  "tripLoading = initialState \<lparr> messages := [initMessage, newUserMsg 5 ''Plan a trip'' [] []],
          isLoading := True, loadingStep := ''Generating visual interface...'' \<rparr>"

definition collectingRuntime :: Runtime where
  "collectingRuntime =
     stubRuntime (Some (textResponse collectingAnswer)) [(collectingText, JSON_object collectingReply)]
       [(collectingReply \<lparr> grounding_links := Some [] \<rparr>, collectingStored)]"

definition garbledRuntime :: Runtime where
  "garbledRuntime =
     stubRuntime (Some (textResponse ''not json'')) [(collectingText, JSON_object collectingReply)] []"

text \<open>
  Answers that are the JSON texts of values that are no objects, \<^verbatim>\<open>null\<close> and \<^verbatim>\<open>5\<close>, and
  the answer with the empty text.
\<close>

definition jsonTexts :: "(string \<times> JSON) list" where
  "jsonTexts =
     [(collectingText, JSON_object collectingReply), (''null'', JSON_null), (''5'', JSON_primitive)]"

definition nullRuntime :: Runtime where
  "nullRuntime = stubRuntime (Some (textResponse ''null'')) jsonTexts []"

definition numberRuntime :: Runtime where
  "numberRuntime = stubRuntime (Some (textResponse ''5'')) jsonTexts []"

definition silentRuntime :: Runtime where
  "silentRuntime = stubRuntime (Some (textResponse [])) jsonTexts []"

text \<open>
  The URL pattern in the words of the specification: a scheme (a letter, then letters,
  digits, \<open>+\<close>, \<open>-\<close> and \<open>.\<close>), then \<open>://\<close>, then at least one character that is not white
  space. \<open>spec_url_at\<close> is a match that starts at the head of the string, \<open>spec_url_test\<close>
  a match anywhere.
\<close>

definition isLetter :: "char \<Rightarrow> bool" where
  "isLetter c = (c \<in> set ''abcdefghijklmnopqrstuvwxyzABCDEFGHIJKLMNOPQRSTUVWXYZ'')"

definition isSchemeChar :: "char \<Rightarrow> bool" where
  "isSchemeChar c = (isLetter c \<or> c \<in> set ''0123456789+-.'')"

definition spec_url_at :: "string \<Rightarrow> bool" where
  "spec_url_at s =
     (let scheme = takeWhile isSchemeChar s;
          rest = drop (length scheme) s
      in scheme \<noteq> [] \<and> isLetter (hd scheme) \<and> startsWith rest ''://'' \<and> 3 < length rest \<and>
         \<not> isWhiteSpace (rest ! 3))"

fun spec_url_test :: "string \<Rightarrow> bool" where
  "spec_url_test [] = False"
| "spec_url_test (c # cs) = (spec_url_at (c # cs) \<or> spec_url_test cs)"

text \<open>
  The grounding-link list in the words of the specification: the search citations of an
  answer are the \<^verbatim>\<open>web\<close> parts of its grounding chunks, in order; a citation becomes a
  link with its address and its title, or "External Source" when it has none; a fetched
  page becomes a link with the retrieved address and the title "Retrieved Page Context".
\<close>

definition spec_citations :: "Response \<Rightarrow> WebChunk list" where
  "spec_citations response =
     (case groundingChunks response of
        None \<Rightarrow> []
      | Some chunks \<Rightarrow> concat (map (\<lambda>chunk. case web chunk of None \<Rightarrow> [] | Some w \<Rightarrow> [w]) chunks))"

definition spec_fetched :: "Response \<Rightarrow> UrlMetadata list" where
  "spec_fetched response = (case urlMetadata response of None \<Rightarrow> [] | Some metas \<Rightarrow> metas)"

definition spec_citation_link :: "WebChunk \<Rightarrow> GroundingLink" where
  "spec_citation_link w =
     \<lparr> uri = web_uri w,
       title = (case web_title w of
                  None \<Rightarrow> ''External Source''
                | Some t \<Rightarrow> if t = [] then ''External Source'' else t) \<rparr>"

definition spec_fetched_link :: "UrlMetadata \<Rightarrow> GroundingLink" where
  "spec_fetched_link m =
     \<lparr> uri = (case retrievedUrl m of
                None \<Rightarrow> retrieved_url m
              | Some u \<Rightarrow> if u = [] then retrieved_url m else Some u),
       title = ''Retrieved Page Context'' \<rparr>"

definition spec_grounding_links :: "AIResponse \<Rightarrow> Response \<Rightarrow> GroundingLink list" where
  "spec_grounding_links parsed response =
     (case grounding_links parsed of None \<Rightarrow> [] | Some ls \<Rightarrow> ls) @
     map spec_citation_link (spec_citations response) @
     map spec_fetched_link (spec_fetched response)"

text \<open>
  An answer with search citations a (no title), a chunk that is no web citation, b
  (titled), and one fetched page c.
\<close>

definition citedResponse :: Response where
  "citedResponse =
     \<lparr> resp_text = Some collectingText,
       groundingChunks = Some
         [\<lparr> web = Some \<lparr> web_uri = Some ''a'', web_title = None \<rparr> \<rparr>,
          \<lparr> web = None \<rparr>,
          \<lparr> web = Some \<lparr> web_uri = Some ''b'', web_title = Some ''B'' \<rparr> \<rparr>],
       urlMetadata = Some [\<lparr> retrievedUrl = Some ''c'', retrieved_url = None \<rparr>] \<rparr>"

definition citedRuntime :: Runtime where
  "citedRuntime = stubRuntime (Some citedResponse) [(collectingText, JSON_object collectingReply)] []"

text \<open>The answer \<^verbatim>\<open>{}\<close>: an object with none of the keys.\<close>

definition emptyReply :: AIResponse where
  "emptyReply = \<lparr> status = None, message = None, reply_fields = None, analysis = None,
     final_output = None, key_references = None, grounding_links = None \<rparr>"

definition emptyObjectRuntime :: Runtime where
  \<open>emptyObjectRuntime =
     stubRuntime (Some (textResponse ''{}'')) [(''{}'', JSON_object emptyReply)]
       [(emptyReply \<lparr> grounding_links := Some [] \<rparr>, ''{"grounding_links":[]}'')]\<close>

text \<open>A reply with a status that is neither of the two, and its JSON text.\<close>

definition pendingReply :: AIResponse where
  "pendingReply = \<lparr> status = Some ''PENDING'', message = Some ''One moment.'',
     reply_fields = Some [destinationField], analysis = Some ''Reasoning'',
     final_output = Some ''Itinerary'', key_references = None, grounding_links = None \<rparr>"

definition pendingText :: string where
  \<open>pendingText =
     ''{"status":"PENDING","message":"One moment.","fields":['' @
     ''{"id":"destination","type":"text","label":"Destination","required":true}],'' @
     ''"analysis":"Reasoning","final_output":"Itinerary"}''\<close>

definition pendingStored :: string where
  \<open>pendingStored =
     ''{"status":"PENDING","message":"One moment.","fields":['' @
     ''{"id":"destination","type":"text","label":"Destination","required":true}],'' @
     ''"analysis":"Reasoning","final_output":"Itinerary","grounding_links":[]}''\<close>

definition pendingRuntime :: Runtime where
  "pendingRuntime =
     stubRuntime (Some (textResponse pendingText)) [(pendingText, JSON_object pendingReply)]
       [(pendingReply \<lparr> grounding_links := Some [] \<rparr>, pendingStored)]"

text \<open>The first request is out, and the user has typed a second message.\<close>

definition typingWhileLoading :: AppState where
  "typingWhileLoading = tripLoading \<lparr> input := ''and a hotel'' \<rparr>"

text \<open>
  The file list of a submission in the words of the specification: the files bound to the
  descriptors, in descriptor order.
\<close>

definition spec_descriptor_files :: "UIField list \<Rightarrow> FormState \<Rightarrow> File list" where
  "spec_descriptor_files descriptors f =
     concat (map (\<lambda>d. case getProp (fileData f) (field_id d) of None \<Rightarrow> [] | Some fl \<Rightarrow> [fl])
               descriptors)"

text \<open>
  What a history of interactions binds: the pairs of descriptor id and file of the changes
  that carry a file, in order; the ids in the order in which they were first given a file;
  the last file given to an id; and the files dropped on the extra-files zone, as its
  removals leave them.
\<close>

fun bindings :: "FormEvent list \<Rightarrow> (string \<times> File) list" where
  "bindings [] = []"
| "bindings (Change k v (Some fl) # evs) = (k, fl) # bindings evs"
| "bindings (e # evs) = bindings evs"

definition firstOccurrences :: "string list \<Rightarrow> string list" where
  "firstOccurrences ks = rev (remdups (rev ks))"

definition spec_bound_order :: "FormEvent list \<Rightarrow> string list" where
  "spec_bound_order evs =
     (let ids = firstOccurrences (map fst (bindings evs))
      in sort_key numValue (filter isArrayIndex ids) @ filter (\<lambda>k. \<not> isArrayIndex k) ids)"

definition spec_last_file :: "FormEvent list \<Rightarrow> string \<Rightarrow> File" where
  "spec_last_file evs k = the (map_of (rev (bindings evs)) k)"

definition isRemoval :: "FormEvent \<Rightarrow> bool" where
  "isRemoval e = (case e of Change k None None \<Rightarrow> True | _ \<Rightarrow> False)"

definition pngFile :: "string \<Rightarrow> File" where
  "pngFile n = \<lparr> file_name = n, file_type = ''image/png'', file_base64 = Some n \<rparr>"

definition passportField :: UIField where
  "passportField = \<lparr> field_id = ''passport'', field_type = FILE, label = ''Passport scan'',
     placeholder = None, options = None, description = None, required = Some True \<rparr>"

definition ticketField :: UIField where
  "ticketField = \<lparr> field_id = ''ticket'', field_type = FILE, label = ''Ticket'',
     placeholder = None, options = None, description = None, required = None \<rparr>"

text \<open>The user attaches the ticket first and the passport second, then drops a map.\<close>

definition ticketFirst :: "FormEvent list" where
  "ticketFirst =
     [Change ''ticket'' (Some ''ticket.png'') (Some (pngFile ''ticket.png'')),
      Change ''passport'' (Some ''passport.png'') (Some (pngFile ''passport.png'')),
      Drop [pngFile ''map.png'']]"

text \<open>
  The same, with a descriptor whose id is the array index 10 and one whose id is 9, and
  the ticket replaced at the end.
\<close>

definition mixedIds :: "FormEvent list" where
  "mixedIds =
     [Change ''ticket'' (Some ''ticket.png'') (Some (pngFile ''ticket.png'')),
      Change ''10'' (Some ''ten.png'') (Some (pngFile ''ten.png'')),
      Change ''passport'' (Some ''passport.png'') (Some (pngFile ''passport.png'')),
      Change ''city'' (Some ''Lisbon'') None,
      Drop [pngFile ''map.png''],
      Change ''9'' (Some ''nine.png'') (Some (pngFile ''nine.png'')),
      Change ''ticket'' (Some ''ticket2.png'') (Some (pngFile ''ticket2.png''))]"

definition spec_extras :: "FormEvent list \<Rightarrow> File list" where
  "spec_extras evs =
     foldl (\<lambda>fs e. case e of
                      Drop dropped \<Rightarrow> fs @ dropped
                    | RemoveAdditional i \<Rightarrow> take i fs @ drop (Suc i) fs
                    | _ \<Rightarrow> fs) [] evs"

text \<open>The object that defining the given properties one after the other creates.\<close>

definition created :: "(string \<times> 'v) list \<Rightarrow> 'v Obj" where
  "created ps = foldl (\<lambda>obj p. setProp obj (fst p) (snd p)) [] ps"







text \<open>The ids that a history of interactions has changed.\<close>

fun changedIds :: "FormEvent list \<Rightarrow> string list" where
  "changedIds [] = []"
| "changedIds (Change k v fo # evs) = k # changedIds evs"
| "changedIds (e # evs) = changedIds evs"


section \<open>Properties of the send pipeline\<close>

text \<open>
  C10. A send whose trimmed text is empty and that carries no files, neither passed nor
  staged, returns at once: no request goes out and the whole state (message log,
  conversation history, staged files, loading flag) is the one it started from.
\<close>

theorem empty_send_is_noop:
  assumes "trim txt = []" and "files = []" and "stagedFiles s = []"
  shows "handleSend_start now s txt files modelName loadingOverride = Returned \<and>
         handleSend rt now now' s txt files modelName loadingOverride = (s, [])"
  using assms by (simp add: handleSend_def handleSend_start_def)

theorem empty_send_is_noop_witness:
  "trim '' '' = [] \<and> stagedFiles initialState = [] \<and>
   handleSend_start 5 initialState '' '' [] ''gemini-3-flash-preview'' None = Returned \<and>
   handleSend (stubRuntime None [] []) 5 6 initialState '' '' [] ''gemini-3-flash-preview'' None
     = (initialState, [])"
proof -
  have t: "trim '' '' = []" by (simp add: trim_def isWhiteSpace_def)
  have f: "stagedFiles initialState = []" by (simp add: initialState_def)
  show ?thesis
    using t f empty_send_is_noop [OF t refl f, of 5 "''gemini-3-flash-preview''" None
        "stubRuntime None [] []" 6]
    by simp
qed

lemma settle_history:
  "aiHistory (handleSend_settle rt now s p outcome) =
     (case outcome of
        Inr r \<Rightarrow> aiHistory s @ [userTurn p, modelTurn rt r]
      | Inl e \<Rightarrow> aiHistory s)"
  by (simp add: handleSend_settle_def split: sum.splits)

lemma start_Awaiting:
  "handleSend_start now s txt files m ov = Awaiting s' p \<Longrightarrow>
     aiHistory s' = aiHistory s \<and> pend_history p = aiHistory s \<and> pend_text p = txt \<and>
     pend_model p = m \<and> processedFiles (files @ stagedFiles s) = Some (pend_files p)"
  by (auto simp: handleSend_start_def Let_def split: if_splits option.splits)

text \<open>
  C2. A send that gets a reply appends exactly two turns to the conversation history, the
  user's turn and then the model's turn; a send whose call fails (the service rejects the
  call, answers with no text, or answers with text that does not parse) appends none.
\<close>

theorem history_pairing:
  assumes "handleSend_start now s txt files m ov = Awaiting s' p"
  shows "case sendMessageToGemini rt (aiHistory s) (pend_input p) m of
           Inr aiResponse \<Rightarrow>
             aiHistory (fst (handleSend rt now now' s txt files m ov)) =
               aiHistory s @ [userTurn p, modelTurn rt aiResponse] \<and>
             turn_role (userTurn p) = ''user'' \<and>
             turn_role (modelTurn rt aiResponse) = ''model''
         | Inl e \<Rightarrow>
             aiHistory (fst (handleSend rt now now' s txt files m ov)) = aiHistory s"
  using assms start_Awaiting[OF assms]
  by (simp add: handleSend_def settle_history userTurn_def modelTurn_def split: sum.splits)

lemma trip_start:
  "handleSend_start 5 initialState ''Plan a trip'' [] flash None = Awaiting tripLoading tripPending"
  by (simp add: handleSend_start_def trim_def isWhiteSpace_def initialState_def truthy_def
      tripLoading_def tripPending_def)

lemma clean_plain: "cleanJsonOutput collectingText = collectingText"
  by (simp add: cleanJsonOutput_def trim_def isWhiteSpace_def startsWith_def endsWith_def fence_def
      collectingText_def)

lemma clean_answer: "cleanJsonOutput collectingAnswer = collectingText"
  by (simp add: cleanJsonOutput_def trim_def isWhiteSpace_def startsWith_def endsWith_def fence_def
      collectingText_def collectingAnswer_def)

lemma sample_texts:
  "collectingAnswer \<noteq> []" "collectingText \<noteq> []" "''not json'' \<noteq> collectingText"
  by (simp_all add: collectingAnswer_def fence_def collectingText_def)

lemma clean_not_json: "cleanJsonOutput ''not json'' = ''not json''"
  by (simp add: cleanJsonOutput_def trim_def isWhiteSpace_def startsWith_def endsWith_def fence_def)

lemma trip_collecting:
  "sendMessageToGemini collectingRuntime [] (pend_input tripPending) flash =
     Inr (collectingReply \<lparr> grounding_links := Some [] \<rparr>)"
  by (simp add: sendMessageToGemini_def receive_def collectingRuntime_def stubRuntime_def
      textResponse_def truthy_def clean_answer sample_texts collectingReply_def)

lemma trip_garbled:
  "sendMessageToGemini garbledRuntime [] (pend_input tripPending) flash = Inl SchemaViolation"
  by (simp add: sendMessageToGemini_def receive_def garbledRuntime_def stubRuntime_def
      textResponse_def truthy_def clean_not_json sample_texts)

theorem history_pairing_witness:
  "handleSend_start 5 initialState ''Plan a trip'' [] flash None = Awaiting tripLoading tripPending \<and>
   aiHistory initialState = [] \<and>
   aiHistory (fst (handleSend collectingRuntime 5 6 initialState ''Plan a trip'' [] flash None)) =
     [\<lparr> turn_role = ''user'', parts = [TextPart ''Plan a trip''] \<rparr>,
      \<lparr> turn_role = ''model'', parts = [TextPart collectingStored] \<rparr>] \<and>
   aiHistory (fst (handleSend garbledRuntime 5 6 initialState ''Plan a trip'' [] flash None)) = []"
proof -
  have h: "aiHistory initialState = []" by (simp add: initialState_def)
  have m: "modelTurn collectingRuntime (collectingReply \<lparr> grounding_links := Some [] \<rparr>) =
      \<lparr> turn_role = ''model'', parts = [TextPart collectingStored] \<rparr>"
    by (simp add: modelTurn_def collectingRuntime_def stubRuntime_def)
  have u: "userTurn tripPending = \<lparr> turn_role = ''user'', parts = [TextPart ''Plan a trip''] \<rparr>"
    by (simp add: userTurn_def tripPending_def)
  show ?thesis
    using history_pairing [OF trip_start, of collectingRuntime 6]
      history_pairing [OF trip_start, of garbledRuntime 6]
    by (simp add: trip_start h trip_collecting trip_garbled m u)
qed

text \<open>
  C3. The assistant message made from a parsed reply: with status "COLLECTING" it carries
  the reply's field descriptors and neither analysis nor final output; with status
  "COMPLETE" it carries the reply's analysis and final output (each as present in the
  reply) and no field descriptors. It is the message appended to the log.
\<close>

theorem status_ui_mapping:
  "(status r = Some ''COLLECTING'' \<longrightarrow>
      uiFields (newAiMsg now r) = reply_fields r \<and>
      msg_analysis (newAiMsg now r) = None \<and>
      msg_final_output (newAiMsg now r) = None) \<and>
   (status r = Some ''COMPLETE'' \<longrightarrow>
      msg_analysis (newAiMsg now r) = analysis r \<and>
      msg_final_output (newAiMsg now r) = final_output r \<and>
      uiFields (newAiMsg now r) = None) \<and>
   messages (handleSend_settle rt now s p (Inr r)) = messages s @ [newAiMsg now r]"
  by (simp add: newAiMsg_def handleSend_settle_def)

theorem status_ui_mapping_witness:
  "status collectingReply = Some ''COLLECTING'' \<and>
   uiFields (newAiMsg 6 collectingReply) = Some [destinationField, datesField] \<and>
   msg_analysis (newAiMsg 6 collectingReply) = None \<and>
   msg_final_output (newAiMsg 6 collectingReply) = None \<and>
   status completeReply = Some ''COMPLETE'' \<and>
   msg_analysis (newAiMsg 6 completeReply) = Some ''Reasoning'' \<and>
   msg_final_output (newAiMsg 6 completeReply) = Some ''Itinerary'' \<and>
   uiFields (newAiMsg 6 completeReply) = None"
  using status_ui_mapping [of collectingReply 6] status_ui_mapping [of completeReply 6]
  by (simp add: collectingReply_def completeReply_def)

section \<open>Properties of the inference adapter\<close>

lemma startsWith_iff: "startsWith s p \<longleftrightarrow> (\<exists>r. s = p @ r)"
  unfolding startsWith_def
  by (metis append_eq_conv_conj append_take_drop_id)

lemma urlRegex_at_iff:
  "urlRegex_at s \<longleftrightarrow>
     (\<exists>scheme c rest. s = scheme @ ''://'' @ c # rest \<and> scheme \<in> {''http'', ''https''} \<and>
        \<not> isWhiteSpace c)"
proof
  assume "urlRegex_at s"
  then consider
      (a) "startsWith s ''http://''" "7 < length s" "\<not> isWhiteSpace (s ! 7)"
    | (b) "startsWith s ''https://''" "8 < length s" "\<not> isWhiteSpace (s ! 8)"
    unfolding urlRegex_at_def by blast
  then show "\<exists>scheme c rest. s = scheme @ ''://'' @ c # rest \<and> scheme \<in> {''http'', ''https''} \<and>
        \<not> isWhiteSpace c"
  proof cases
    case a
    then obtain r where r: "s = ''http://'' @ r" by (auto simp: startsWith_iff)
    with a have "r \<noteq> []" by auto
    then obtain c rest where cr: "r = c # rest" by (cases r) auto
    with r a have "\<not> isWhiteSpace c" by simp
    with r cr have "s = ''http'' @ ''://'' @ c # rest \<and> ''http'' \<in> {''http'', ''https''} \<and> \<not> isWhiteSpace c"
      by simp
    then show ?thesis by blast
  next
    case b
    then obtain r where r: "s = ''https://'' @ r" by (auto simp: startsWith_iff)
    with b have "r \<noteq> []" by auto
    then obtain c rest where cr: "r = c # rest" by (cases r) auto
    with r b have "\<not> isWhiteSpace c" by simp
    with r cr have "s = ''https'' @ ''://'' @ c # rest \<and> ''https'' \<in> {''http'', ''https''} \<and> \<not> isWhiteSpace c"
      by simp
    then show ?thesis by blast
  qed
next
  assume "\<exists>scheme c rest. s = scheme @ ''://'' @ c # rest \<and> scheme \<in> {''http'', ''https''} \<and>
        \<not> isWhiteSpace c"
  then obtain scheme c rest where s: "s = scheme @ ''://'' @ c # rest"
    and sch: "scheme = ''http'' \<or> scheme = ''https''" and c: "\<not> isWhiteSpace c" by auto
  from sch show "urlRegex_at s"
  proof
    assume "scheme = ''http''"
    with s c show ?thesis by (simp add: urlRegex_at_def startsWith_def)
  next
    assume "scheme = ''https''"
    with s c show ?thesis by (simp add: urlRegex_at_def startsWith_def)
  qed
qed

lemma urlRegex_test_iff: "urlRegex_test t \<longleftrightarrow> (\<exists>pre suf. t = pre @ suf \<and> urlRegex_at suf)"
proof (induction t)
  case Nil
  then show ?case by (simp add: urlRegex_at_def startsWith_def)
next
  case (Cons a t)
  show ?case
  proof
    assume "urlRegex_test (a # t)"
    then consider "urlRegex_at (a # t)" | "urlRegex_test t" by auto
    then show "\<exists>pre suf. a # t = pre @ suf \<and> urlRegex_at suf"
    proof cases
      case 1
      then have "a # t = [] @ (a # t) \<and> urlRegex_at (a # t)" by simp
      then show ?thesis by blast
    next
      case 2
      with Cons.IH obtain pre suf where "t = pre @ suf" "urlRegex_at suf" by auto
      then have "a # t = (a # pre) @ suf \<and> urlRegex_at suf" by simp
      then show ?thesis by blast
    qed
  next
    assume "\<exists>pre suf. a # t = pre @ suf \<and> urlRegex_at suf"
    then obtain pre suf where ps: "a # t = pre @ suf" "urlRegex_at suf" by auto
    show "urlRegex_test (a # t)"
    proof (cases pre)
      case Nil
      with ps have "urlRegex_at (a # t)" by simp
      then show ?thesis by simp
    next
      case (Cons b pre')
      with ps have "t = pre' @ suf" by simp
      with ps Cons.IH have "urlRegex_test t" by blast
      then show ?thesis by simp
    qed
  qed
qed

text \<open>
  C8 (as amended). The request of every call to \<open>sendMessageToGemini\<close> enables the
  web-search tool, and enables the URL-fetch tool exactly when the input text has a
  substring that matches the URL pattern of the code: the scheme \<open>http\<close> or \<open>https\<close>, in
  small letters, then \<open>://\<close>, then at least one character that is not white space. The
  call hands that request, and no other, to the service.
\<close>

theorem tool_selection:
  "req_tools (request history newInput modelName) =
     googleSearch #
       (if (\<exists>t pre scheme c rest. input_text newInput = Some t \<and>
              t = pre @ scheme @ ''://'' @ c # rest \<and> scheme \<in> {''http'', ''https''} \<and>
              \<not> isWhiteSpace c)
        then [urlContext] else []) \<and>
   sendMessageToGemini rt history newInput modelName =
     (case generateContent rt (request history newInput modelName) of
        None \<Rightarrow> Inl InferenceFailure
      | Some response \<Rightarrow> receive rt response)"
proof -
  have "hasUrl newInput \<longleftrightarrow>
      (\<exists>t pre scheme c rest. input_text newInput = Some t \<and>
              t = pre @ scheme @ ''://'' @ c # rest \<and> scheme \<in> {''http'', ''https''} \<and>
              \<not> isWhiteSpace c)" (is "_ \<longleftrightarrow> ?R")
  proof (cases "input_text newInput")
    case None
    then show ?thesis by (simp add: hasUrl_def)
  next
    case (Some t)
    have "urlRegex_test t \<longleftrightarrow> (\<exists>pre scheme c rest. 
              t = pre @ scheme @ ''://'' @ c # rest \<and> scheme \<in> {''http'', ''https''} \<and>
              \<not> isWhiteSpace c)"
      unfolding urlRegex_test_iff urlRegex_at_iff by blast
    moreover have "urlRegex_test t \<Longrightarrow> t \<noteq> []" by auto
    ultimately show ?thesis using Some by (auto simp: hasUrl_def)
  qed
  then show ?thesis
    by (simp add: request_def tools_def sendMessageToGemini_def)
qed

text \<open>
  The claim as first stated takes any scheme. A link with the scheme \<open>ftp\<close>, and one with
  \<open>HTTP\<close> in capitals, match the pattern of the specification, and the request for them
  has the web-search tool alone.
\<close>

theorem other_scheme_counterexample:
  "spec_url_test ''ftp://example.com/a'' \<and>
   req_tools (request [] \<lparr> input_text = Some ''ftp://example.com/a'', input_files = None \<rparr> flash) =
     [googleSearch] \<and>
   spec_url_test ''HTTP://EXAMPLE.COM/a'' \<and>
   req_tools (request [] \<lparr> input_text = Some ''HTTP://EXAMPLE.COM/a'', input_files = None \<rparr> flash) =
     [googleSearch]"
  by (simp add: spec_url_at_def isSchemeChar_def isLetter_def request_def tools_def hasUrl_def
      urlRegex_at_def startsWith_def isWhiteSpace_def)

text \<open>
  Examples: a link in a sentence; the bare prefix with nothing after it; no text at all.
\<close>

lemma tools_examples:
  "tools \<lparr> input_text = Some ''see https://example.com/a now'', input_files = None \<rparr> =
     [googleSearch, urlContext]"
  "tools \<lparr> input_text = Some ''plain words, and http:// alone'', input_files = None \<rparr> =
     [googleSearch]"
  "tools \<lparr> input_text = None, input_files = Some [] \<rparr> = [googleSearch]"
  by (simp_all add: tools_def hasUrl_def urlRegex_at_def startsWith_def isWhiteSpace_def)

text \<open>Every match of the pattern of the code is a match of the pattern of the specification.\<close>

lemma urlRegex_at_spec: "urlRegex_at s \<Longrightarrow> spec_url_at s"
  by (auto simp: urlRegex_at_iff spec_url_at_def isSchemeChar_def isLetter_def startsWith_def)

lemma urlRegex_test_spec: "urlRegex_test t \<Longrightarrow> spec_url_test t"
  by (induction t) (auto simp: urlRegex_at_spec)

lemma links_spec:
  "links chunks =
     map spec_citation_link (concat (map (\<lambda>chunk. case web chunk of None \<Rightarrow> [] | Some w \<Rightarrow> [w]) chunks))"
  by (induction chunks)
     (auto simp: links_def spec_citation_link_def truthy_def split: option.splits)

lemma urlLinks_spec: "urlLinks metas = map spec_fetched_link metas"
  by (auto simp: urlLinks_def spec_fetched_link_def truthy_def split: option.splits)

lemma receive_Inr:
  "receive rt response = Inr r \<longleftrightarrow>
     (\<exists>t j. resp_text response = Some t \<and> t \<noteq> [] \<and>
        JSON_parse rt (cleanJsonOutput t) = Some (JSON_object j) \<and>
        r = j \<lparr> grounding_links := Some (spec_grounding_links j response) \<rparr>)"
  by (auto simp: receive_def truthy_def spec_grounding_links_def spec_citations_def
      spec_fetched_def links_spec urlLinks_spec split: option.splits JSON.splits)

text \<open>
  C6. The grounding links of a reply: the list the model put in its JSON, or the empty list
  when it put none, then every search citation (its title, or "External Source" when it
  has none or an empty one), then every URL-fetch result (titled "Retrieved Page
  Context"), each group in the order of the answer, nothing removed. Citations a, b and
  a fetched page c give [a, b, c].
\<close>

theorem grounding_links_order:
  assumes "sendMessageToGemini rt history newInput modelName = Inr r"
  shows "\<exists>response t parsed.
           generateContent rt (request history newInput modelName) = Some response \<and>
           resp_text response = Some t \<and>
           JSON_parse rt (cleanJsonOutput t) = Some (JSON_object parsed) \<and>
           grounding_links r =
             Some ((case grounding_links parsed of None \<Rightarrow> [] | Some ls \<Rightarrow> ls) @
                   map spec_citation_link (spec_citations response) @
                   map spec_fetched_link (spec_fetched response))"
proof -
  from assms obtain response where g: "generateContent rt (request history newInput modelName) = Some response"
    and rc: "receive rt response = Inr r"
    by (auto simp: sendMessageToGemini_def split: option.splits)
  from rc obtain t j where "resp_text response = Some t"
    "JSON_parse rt (cleanJsonOutput t) = Some (JSON_object j)"
    "r = j \<lparr> grounding_links := Some (spec_grounding_links j response) \<rparr>"
    unfolding receive_Inr by blast
  with g show ?thesis by (auto simp: spec_grounding_links_def)
qed

lemma cited_send:
  "sendMessageToGemini citedRuntime [] (pend_input tripPending) flash =
     Inr (collectingReply \<lparr> grounding_links := Some
       [\<lparr> uri = Some ''a'', title = ''External Source'' \<rparr>,
        \<lparr> uri = Some ''b'', title = ''B'' \<rparr>,
        \<lparr> uri = Some ''c'', title = ''Retrieved Page Context'' \<rparr>] \<rparr>)"
  by (simp add: sendMessageToGemini_def receive_def citedRuntime_def stubRuntime_def
      citedResponse_def truthy_def clean_plain sample_texts collectingReply_def links_def
      urlLinks_def)

theorem grounding_links_order_witness:
  "sendMessageToGemini citedRuntime [] (pend_input tripPending) flash =
     Inr (collectingReply \<lparr> grounding_links := Some
       [\<lparr> uri = Some ''a'', title = ''External Source'' \<rparr>,
        \<lparr> uri = Some ''b'', title = ''B'' \<rparr>,
        \<lparr> uri = Some ''c'', title = ''Retrieved Page Context'' \<rparr>] \<rparr>) \<and>
   grounding_links collectingReply = None \<and>
   map spec_citation_link (spec_citations citedResponse) =
     [\<lparr> uri = Some ''a'', title = ''External Source'' \<rparr>, \<lparr> uri = Some ''b'', title = ''B'' \<rparr>] \<and>
   map spec_fetched_link (spec_fetched citedResponse) =
     [\<lparr> uri = Some ''c'', title = ''Retrieved Page Context'' \<rparr>]"
  using grounding_links_order [OF cited_send]
  by (simp add: cited_send collectingReply_def spec_citations_def spec_fetched_def
      spec_citation_link_def spec_fetched_link_def citedResponse_def)

lemma start_request:
  "handleSend_start now s txt files m ov = Awaiting s' p \<Longrightarrow>
     messages s' = messages s @ [newUserMsg now txt (files @ stagedFiles s) (pend_files p)] \<and>
     isLoading s'"
  by (auto simp: handleSend_start_def Let_def split: if_splits option.splits)

lemma cleanJsonOutput_fenced:
  "cleanJsonOutput (fence @ ''json'' @ body @ fence) = trim body"
proof -
  define x where "x = fence @ ''json'' @ body @ fence"
  have w: "\<not> isWhiteSpace (CHR 0x60)" by (simp add: isWhiteSpace_def)
  have t: "trim x = x"
    using w by (simp add: trim_def fence_def x_def)
  have sw: "startsWith x (fence @ ''json'')" by (simp add: x_def startsWith_def)
  have d: "drop 7 x = body @ fence" by (simp add: x_def fence_def)
  have e: "endsWith (body @ fence) fence" by (simp add: endsWith_def)
  have k: "take (length (body @ fence) - 3) (body @ fence) = body" by (simp add: fence_def)
  have "cleanJsonOutput x = trim body"
    unfolding cleanJsonOutput_def Let_def t using sw d e k by simp
  then show ?thesis by (simp add: x_def)
qed

lemma cleanJsonOutput_fenced_plain:
  assumes "\<not> startsWith body ''json''"
  shows "cleanJsonOutput (fence @ body @ fence) = trim body"
proof -
  define x where "x = fence @ body @ fence"
  have w: "\<not> isWhiteSpace (CHR 0x60)" by (simp add: isWhiteSpace_def)
  have t: "trim x = x"
    using w by (simp add: trim_def fence_def x_def)
  have "\<not> startsWith (body @ fence) ''json''"
  proof (cases body)
    case Nil
    then show ?thesis by (simp add: startsWith_def fence_def)
  next
    case (Cons a b1)
    show ?thesis
    proof (cases b1)
      case Nil
      with Cons show ?thesis by (simp add: startsWith_def fence_def)
    next
      case (Cons b b2)
      note c2 = this
      show ?thesis
      proof (cases b2)
        case Nil
        with c2 \<open>body = a # b1\<close> show ?thesis by (simp add: startsWith_def fence_def)
      next
        case (Cons c b3)
        note c3 = this
        show ?thesis
        proof (cases b3)
          case Nil
          with c2 c3 \<open>body = a # b1\<close> show ?thesis by (simp add: startsWith_def fence_def)
        next
          case (Cons d b4)
          with c2 c3 \<open>body = a # b1\<close> assms show ?thesis by (simp add: startsWith_def)
        qed
      qed
    qed
  qed
  then have n: "\<not> startsWith x (fence @ ''json'')"
    by (simp add: x_def startsWith_iff)
  have sw: "startsWith x fence" by (simp add: x_def startsWith_def)
  have d: "drop 3 x = body @ fence" by (simp add: x_def fence_def)
  have e: "endsWith (body @ fence) fence" by (simp add: endsWith_def)
  have k: "take (length (body @ fence) - 3) (body @ fence) = body" by (simp add: fence_def)
  have "cleanJsonOutput x = trim body"
    unfolding cleanJsonOutput_def Let_def t using n sw d e k by simp
  then show ?thesis by (simp add: x_def)
qed

lemma cleanJsonOutput_unfenced:
  assumes "\<not> startsWith (trim s) fence"
  shows "cleanJsonOutput s = trim (trim s)"
proof -
  have "\<not> startsWith (trim s) (fence @ ''json'')"
    using assms by (auto simp: startsWith_iff)
  with assms show ?thesis by (simp add: cleanJsonOutput_def)
qed

text \<open>
  C4 (as amended). When the service has answered with a text that is not empty,
  \<open>sendMessageToGemini\<close> fails with the schema error whenever the text, once the markdown
  fences are stripped, does not parse. The empty text fails with the null-response error,
  and a text that parses to \<^verbatim>\<open>null\<close> or to a primitive fails with a \<^verbatim>\<open>TypeError\<close>. A text
  that parses to an object, its properties of the declared types where it has them, is
  returned as the reply; the keys of the object are not looked at. Whenever the call
  fails, one request has gone out and no other follows, the conversation history is the
  one before the send, and the log gets the fallback message.
\<close>

theorem unparsable_reply_fails:
  assumes start: "handleSend_start now s txt files m ov = Awaiting s' p"
      and answer: "generateContent rt (pend_request p) = Some response"
      and reply: "resp_text response = Some t"
  shows "sendMessageToGemini rt (pend_history p) (pend_input p) (pend_model p) =
           (if t = [] then Inl NullResponse
            else case JSON_parse rt (cleanJsonOutput t) of
                   None \<Rightarrow> Inl SchemaViolation
                 | Some JSON_null \<Rightarrow> Inl TypeError
                 | Some JSON_primitive \<Rightarrow> Inl TypeError
                 | Some (JSON_object parsed) \<Rightarrow>
                     Inr (parsed \<lparr> grounding_links :=
                            Some (spec_grounding_links parsed response) \<rparr>)) \<and>
         (\<forall>e. sendMessageToGemini rt (pend_history p) (pend_input p) (pend_model p) = Inl e \<longrightarrow>
            snd (handleSend rt now now' s txt files m ov) = [pend_request p] \<and>
            aiHistory (fst (handleSend rt now now' s txt files m ov)) = aiHistory s \<and>
            messages (fst (handleSend rt now now' s txt files m ov)) =
              messages s' @ [fallbackMsg now'])"
proof -
  let ?send = "sendMessageToGemini rt (pend_history p) (pend_input p) (pend_model p)"
  from answer have r: "?send = receive rt response"
    by (simp add: sendMessageToGemini_def pend_request_def)
  have "receive rt response =
           (if t = [] then Inl NullResponse
            else case JSON_parse rt (cleanJsonOutput t) of
                   None \<Rightarrow> Inl SchemaViolation
                 | Some JSON_null \<Rightarrow> Inl TypeError
                 | Some JSON_primitive \<Rightarrow> Inl TypeError
                 | Some (JSON_object parsed) \<Rightarrow>
                     Inr (parsed \<lparr> grounding_links :=
                            Some (spec_grounding_links parsed response) \<rparr>))"
    using reply
    by (simp add: receive_def truthy_def spec_grounding_links_def spec_citations_def
        spec_fetched_def links_spec urlLinks_spec split: option.splits JSON.splits)
  with r have first: "?send =
           (if t = [] then Inl NullResponse
            else case JSON_parse rt (cleanJsonOutput t) of
                   None \<Rightarrow> Inl SchemaViolation
                 | Some JSON_null \<Rightarrow> Inl TypeError
                 | Some JSON_primitive \<Rightarrow> Inl TypeError
                 | Some (JSON_object parsed) \<Rightarrow>
                     Inr (parsed \<lparr> grounding_links :=
                            Some (spec_grounding_links parsed response) \<rparr>))"
    by simp
  from start have h: "aiHistory s' = aiHistory s"
    by (auto simp: handleSend_start_def Let_def split: if_splits option.splits)
  have second: "snd (handleSend rt now now' s txt files m ov) = [pend_request p] \<and>
            aiHistory (fst (handleSend rt now now' s txt files m ov)) = aiHistory s \<and>
            messages (fst (handleSend rt now now' s txt files m ov)) =
              messages s' @ [fallbackMsg now']" if "?send = Inl e" for e
    using that h start by (simp add: handleSend_def handleSend_settle_def)
  from first second show ?thesis by blast
qed

lemma trip_request_garbled:
  "generateContent garbledRuntime (pend_request tripPending) = Some (textResponse ''not json'')"
  by (simp add: garbledRuntime_def stubRuntime_def)

lemma trip_request_collecting:
  "generateContent collectingRuntime (pend_request tripPending) = Some (textResponse collectingAnswer)"
  by (simp add: collectingRuntime_def stubRuntime_def)

lemma trip_request_others:
  "generateContent nullRuntime (pend_request tripPending) = Some (textResponse ''null'')"
  "generateContent numberRuntime (pend_request tripPending) = Some (textResponse ''5'')"
  "generateContent silentRuntime (pend_request tripPending) = Some (textResponse [])"
  by (simp_all add: nullRuntime_def numberRuntime_def silentRuntime_def stubRuntime_def)

lemma clean_others:
  "cleanJsonOutput ''null'' = ''null''" "cleanJsonOutput ''5'' = ''5''"
  by (simp_all add: cleanJsonOutput_def trim_def isWhiteSpace_def startsWith_def endsWith_def
      fence_def)

lemma parse_samples:
  "JSON_parse garbledRuntime (cleanJsonOutput ''not json'') = None"
  "JSON_parse collectingRuntime (cleanJsonOutput collectingAnswer) =
     Some (JSON_object collectingReply)"
  "JSON_parse nullRuntime (cleanJsonOutput ''null'') = Some JSON_null"
  "JSON_parse numberRuntime (cleanJsonOutput ''5'') = Some JSON_primitive"
  by (simp_all add: garbledRuntime_def collectingRuntime_def nullRuntime_def numberRuntime_def
      jsonTexts_def stubRuntime_def clean_not_json clean_answer clean_others sample_texts
      collectingText_def)

theorem unparsable_reply_fails_witness:
  "handleSend_start 5 initialState ''Plan a trip'' [] flash None = Awaiting tripLoading tripPending \<and>
   JSON_parse garbledRuntime (cleanJsonOutput ''not json'') = None \<and>
   sendMessageToGemini garbledRuntime [] (pend_input tripPending) flash = Inl SchemaViolation \<and>
   snd (handleSend garbledRuntime 5 6 initialState ''Plan a trip'' [] flash None) =
     [pend_request tripPending] \<and>
   aiHistory (fst (handleSend garbledRuntime 5 6 initialState ''Plan a trip'' [] flash None)) = [] \<and>
   messages (fst (handleSend garbledRuntime 5 6 initialState ''Plan a trip'' [] flash None)) =
     messages tripLoading @ [fallbackMsg 6] \<and>
   JSON_parse nullRuntime (cleanJsonOutput ''null'') = Some JSON_null \<and>
   sendMessageToGemini nullRuntime [] (pend_input tripPending) flash = Inl TypeError \<and>
   aiHistory (fst (handleSend nullRuntime 5 6 initialState ''Plan a trip'' [] flash None)) = [] \<and>
   JSON_parse numberRuntime (cleanJsonOutput ''5'') = Some JSON_primitive \<and>
   sendMessageToGemini numberRuntime [] (pend_input tripPending) flash = Inl TypeError \<and>
   sendMessageToGemini silentRuntime [] (pend_input tripPending) flash = Inl NullResponse \<and>
   JSON_parse collectingRuntime (cleanJsonOutput collectingAnswer) =
     Some (JSON_object collectingReply) \<and>
   sendMessageToGemini collectingRuntime [] (pend_input tripPending) flash =
     Inr (collectingReply \<lparr> grounding_links := Some [] \<rparr>)"
proof -
  have r: "resp_text (textResponse t) = Some t" for t
    by (simp add: textResponse_def)
  have n: "''not json'' \<noteq> []" "''null'' \<noteq> []" "''5'' \<noteq> []" "collectingAnswer \<noteq> []"
    by (simp_all add: sample_texts)
  have h: "aiHistory initialState = []" "pend_history tripPending = []" "pend_model tripPending = flash"
    by (simp_all add: initialState_def tripPending_def)
  have g: "spec_grounding_links collectingReply (textResponse collectingAnswer) = []"
    by (simp add: spec_grounding_links_def spec_citations_def spec_fetched_def textResponse_def
        collectingReply_def)
  show ?thesis
    using unparsable_reply_fails [OF trip_start trip_request_garbled r, of 6]
      unparsable_reply_fails [OF trip_start trip_request_others(1) r, of 6]
      unparsable_reply_fails [OF trip_start trip_request_others(2) r, of 6]
      unparsable_reply_fails [OF trip_start trip_request_others(3) r, of 6]
      unparsable_reply_fails [OF trip_start trip_request_collecting r, of 6]
    by (simp add: parse_samples n h g trip_start)
qed

text \<open>
  The claim as first stated also asks for the schema error when the parsed object has
  neither \<open>status\<close> nor \<open>message\<close>. The text \<^verbatim>\<open>{}\<close> parses to such an object; it is
  returned as a reply, and the history grows by two turns.
\<close>

theorem missing_keys_counterexample:
  "JSON_parse emptyObjectRuntime (cleanJsonOutput ''{}'') = Some (JSON_object emptyReply) \<and>
   status emptyReply = None \<and> message emptyReply = None \<and>
   sendMessageToGemini emptyObjectRuntime [] (pend_input tripPending) flash =
     Inr (emptyReply \<lparr> grounding_links := Some [] \<rparr>) \<and>
   aiHistory (fst (handleSend emptyObjectRuntime 5 6 initialState ''Plan a trip'' [] flash None)) =
     [userTurn tripPending,
      modelTurn emptyObjectRuntime (emptyReply \<lparr> grounding_links := Some [] \<rparr>)]"
proof -
  have c: "cleanJsonOutput ''{}'' = ''{}''"
    by (simp add: cleanJsonOutput_def trim_def isWhiteSpace_def startsWith_def endsWith_def fence_def)
  have s: "sendMessageToGemini emptyObjectRuntime [] (pend_input tripPending) flash =
     Inr (emptyReply \<lparr> grounding_links := Some [] \<rparr>)"
    by (simp add: sendMessageToGemini_def receive_def emptyObjectRuntime_def stubRuntime_def
      textResponse_def truthy_def c emptyReply_def)
  have h: "pend_history tripPending = []" "pend_model tripPending = flash" "aiHistory tripLoading = []"
    by (simp_all add: initialState_def tripPending_def tripLoading_def)
  show ?thesis
    by (simp add: handleSend_def trip_start h s handleSend_settle_def c)
       (simp add: emptyObjectRuntime_def stubRuntime_def emptyReply_def)
qed

text \<open>
  C5 (as amended). A reply that parses to an object, its properties of the declared types
  where it has them, and whose status is neither "COLLECTING" nor "COMPLETE" is not
  rejected: it is returned with its status as it is, and the assistant message built from
  it carries the reply's message text and grounding links and no field descriptors, no
  analysis and no final output.
\<close>

theorem unrecognized_status_not_rejected:
  assumes "status parsed \<noteq> Some ''COLLECTING''" and "status parsed \<noteq> Some ''COMPLETE''"
      and "resp_text response = Some t" and "t \<noteq> []"
      and "JSON_parse rt (cleanJsonOutput t) = Some (JSON_object parsed)"
  shows "\<exists>r. receive rt response = Inr r \<and> status r = status parsed \<and>
           messages (handleSend_settle rt now s p (receive rt response)) =
             messages s @ [newAiMsg now r] \<and>
           content (newAiMsg now r) = message parsed \<and>
           groundingLinks (newAiMsg now r) = Some (spec_grounding_links parsed response) \<and>
           uiFields (newAiMsg now r) = None \<and>
           msg_analysis (newAiMsg now r) = None \<and>
           msg_final_output (newAiMsg now r) = None"
proof -
  let ?r = "parsed \<lparr> grounding_links := Some (spec_grounding_links parsed response) \<rparr>"
  from assms have "receive rt response = Inr ?r" by (simp add: receive_Inr)
  moreover have "status ?r = status parsed" by simp
  ultimately show ?thesis
    using assms(1,2) by (simp add: handleSend_settle_def newAiMsg_def)
qed

lemma clean_pending: "cleanJsonOutput pendingText = pendingText"
  by (simp add: cleanJsonOutput_def trim_def isWhiteSpace_def startsWith_def endsWith_def fence_def
      pendingText_def)

lemma pendingText_nonempty: "pendingText \<noteq> []"
  by (simp add: pendingText_def)

lemma pending_receive:
  "receive pendingRuntime (textResponse pendingText) =
     Inr (pendingReply \<lparr> grounding_links := Some [] \<rparr>)"
  by (simp add: receive_def pendingRuntime_def stubRuntime_def textResponse_def truthy_def
      clean_pending pendingText_nonempty pendingReply_def)

theorem unrecognized_status_not_rejected_witness:
  "status pendingReply = Some ''PENDING'' \<and>
   receive pendingRuntime (textResponse pendingText) =
     Inr (pendingReply \<lparr> grounding_links := Some [] \<rparr>) \<and>
   messages (handleSend_settle pendingRuntime 6 tripLoading tripPending
       (receive pendingRuntime (textResponse pendingText))) =
     messages tripLoading @ [newAiMsg 6 (pendingReply \<lparr> grounding_links := Some [] \<rparr>)] \<and>
   content (newAiMsg 6 (pendingReply \<lparr> grounding_links := Some [] \<rparr>)) = Some ''One moment.'' \<and>
   uiFields (newAiMsg 6 (pendingReply \<lparr> grounding_links := Some [] \<rparr>)) = None \<and>
   msg_analysis (newAiMsg 6 (pendingReply \<lparr> grounding_links := Some [] \<rparr>)) = None \<and>
   msg_final_output (newAiMsg 6 (pendingReply \<lparr> grounding_links := Some [] \<rparr>)) = None"
proof -
  have a: "status pendingReply \<noteq> Some ''COLLECTING''" "status pendingReply \<noteq> Some ''COMPLETE''"
    "resp_text (textResponse pendingText) = Some pendingText" "pendingText \<noteq> []"
    "JSON_parse pendingRuntime (cleanJsonOutput pendingText) = Some (JSON_object pendingReply)"
    by (simp_all add: pendingReply_def textResponse_def pendingRuntime_def stubRuntime_def
        clean_pending pendingText_nonempty)
  show ?thesis
    using unrecognized_status_not_rejected [OF a, of 6 tripLoading tripPending]
    by (simp add: pending_receive) (simp add: pendingReply_def)
qed

text \<open>
  The claim as first stated asks for a failure there. A reply with status "PENDING" goes
  through, and an assistant message is built from it.
\<close>

theorem unrecognized_status_counterexample:
  "status pendingReply = Some ''PENDING'' \<and>
   sendMessageToGemini pendingRuntime [] (pend_input tripPending) flash =
     Inr (pendingReply \<lparr> grounding_links := Some [] \<rparr>) \<and>
   messages (fst (handleSend pendingRuntime 5 6 initialState ''Plan a trip'' [] flash None)) =
     [initMessage, newUserMsg 5 ''Plan a trip'' [] [],
      \<lparr> msg_id = ''7'', role = ai, content = Some ''One moment.'', uiFields = None,
        msg_analysis = None, msg_final_output = None, msg_formData = None,
        groundingLinks = Some [], attachments = None \<rparr>]"
proof -
  have s: "sendMessageToGemini pendingRuntime [] (pend_input tripPending) flash =
     Inr (pendingReply \<lparr> grounding_links := Some [] \<rparr>)"
    using pending_receive by (simp add: sendMessageToGemini_def pendingRuntime_def stubRuntime_def)
  have h: "pend_history tripPending = []" "pend_model tripPending = flash"
    "messages tripLoading = [initMessage, newUserMsg 5 ''Plan a trip'' [] []]"
    by (simp_all add: initialState_def tripPending_def tripLoading_def)
  have i: "toString 7 = ''7''" by (simp add: toString.simps digit_char_def)
  show ?thesis
    by (simp add: handleSend_def trip_start h s handleSend_settle_def newAiMsg_def i)
       (simp add: pendingReply_def)
qed

section \<open>Properties of the entry points\<close>

lemma submitButton_guarded: "isLoading s \<Longrightarrow> submitButton_click now s = Returned"
  by (simp add: submitButton_click_def submitDisabled_def)

lemma formButton_hidden_after_start:
  assumes "handleSend_start now s txt files m ov = Awaiting s' p"
  shows "formButton_click now' s' f useTurbo = Returned"
proof -
  from assms have "messages s' = messages s @ [newUserMsg now txt (files @ stagedFiles s) (pend_files p)]"
    by (simp add: start_request)
  then have "role (last (messages s')) = user" by (simp add: newUserMsg_def)
  then show ?thesis by (simp add: formButton_click_def formShown_def)
qed

text \<open>
  C1. While a request is in flight the submit button is disabled and the form of the last
  assistant message is off screen, so neither starts a second send. The key handler of the
  text area has no such guard: with the loading flag up and "and a hotel" typed, Enter
  commits a second user message and issues a second request.
\<close>

theorem enter_while_loading_sends_again:
  "isLoading typingWhileLoading \<and>
   submitButton_click 7 typingWhileLoading = Returned \<and>
   textarea_onKeyDown 7 typingWhileLoading ''Enter'' False =
     Awaiting
       (typingWhileLoading
          \<lparr> messages := messages typingWhileLoading @ [newUserMsg 7 ''and a hotel'' [] []],
            input := [],
            loadingStep := ''Let me think about it...'' \<rparr>)
       \<lparr> pend_text = ''and a hotel'', pend_files = [], pend_history = [],
         pend_model = ''gemini-3-flash-preview'' \<rparr> \<and>
   length (messages typingWhileLoading) = 2"
  by (simp add: typingWhileLoading_def tripLoading_def initialState_def submitButton_click_def
      submitDisabled_def textarea_onKeyDown_def handleSend_start_def trim_def isWhiteSpace_def
      truthy_def)

section \<open>Properties of the dynamic form\<close>

lemma setProp_keys:
  "map fst (setProp obj k v) = (if k \<in> set (map fst obj) then map fst obj else map fst obj @ [k])"
  by (induction obj) auto

lemma setProp_distinct: "distinct (map fst obj) \<Longrightarrow> distinct (map fst (setProp obj k v))"
  by (simp add: setProp_keys)

lemma setProp_map_of: "map_of (setProp obj k v) = (map_of obj)(k \<mapsto> v)"
  by (induction obj) (auto simp: fun_eq_iff)

lemma filter_mset_absent:
  "k \<notin> fst ` set ps \<Longrightarrow> filter_mset (\<lambda>p. fst p \<noteq> k) (mset ps) = mset ps"
  by (induction ps) auto

lemma setProp_mset:
  "distinct (map fst obj) \<Longrightarrow>
     mset (setProp obj k v) = add_mset (k, v) (filter_mset (\<lambda>p. fst p \<noteq> k) (mset obj))"
proof (induction obj)
  case Nil
  then show ?case by simp
next
  case (Cons p ps)
  show ?case
  proof (cases "fst p = k")
    case True
    with Cons.prems have "k \<notin> fst ` set ps" by auto
    then show ?thesis using True by (simp add: filter_mset_absent)
  next
    case False
    with Cons show ?thesis by simp
  qed
qed

lemma entries_mset: "mset (entries obj) = mset obj"
  by (simp add: entries_def)

lemma entries_distinct: "distinct (map fst obj) \<Longrightarrow> distinct (map fst (entries obj))"
proof -
  assume d: "distinct (map fst obj)"
  have "mset (map fst (entries obj)) = mset (map fst obj)"
    by (simp add: entries_mset)
  then show ?thesis using d by (metis mset_eq_imp_distinct_iff)
qed

lemma entries_others:
  "filter (\<lambda>p. \<not> isArrayIndex (fst p)) (entries obj) = filter (\<lambda>p. \<not> isArrayIndex (fst p)) obj"
  by (simp add: entries_def filter_empty_conv)

lemma setProp_others:
  "filter (\<lambda>p. \<not> isArrayIndex (fst p)) (setProp obj k v) =
     (if isArrayIndex k then filter (\<lambda>p. \<not> isArrayIndex (fst p)) obj
      else setProp (filter (\<lambda>p. \<not> isArrayIndex (fst p)) obj) k v)"
  by (induction obj) auto

lemma numValue_inj: "isArrayIndex a \<Longrightarrow> isArrayIndex b \<Longrightarrow> numValue a = numValue b \<Longrightarrow> a = b"
  by (metis isArrayIndex_def)

lemma entries_cong:
  assumes m: "mset A = mset B" and d: "distinct (map fst A)"
    and o: "filter (\<lambda>p. \<not> isArrayIndex (fst p)) A = filter (\<lambda>p. \<not> isArrayIndex (fst p)) B"
  shows "entries A = entries B"
proof -
  let ?I = "\<lambda>p. isArrayIndex (fst p)"
  have "mset (filter ?I A) = mset (filter ?I B)" using m by simp
  moreover have "inj_on (\<lambda>p. numValue (fst p)) (set (filter ?I A))"
  proof (rule inj_onI)
    fix p q
    assume p: "p \<in> set (filter ?I A)" and q: "q \<in> set (filter ?I A)"
      and e: "numValue (fst p) = numValue (fst q)"
    then have "fst p = fst q" by (auto intro: numValue_inj)
    moreover from d have "inj_on fst (set A)" by (simp add: distinct_map)
    ultimately show "p = q" using p q by (auto dest: inj_onD)
  qed
  ultimately have "sort_key (\<lambda>p. numValue (fst p)) (filter ?I A) =
      sort_key (\<lambda>p. numValue (fst p)) (filter ?I B)"
    by (rule sort_key_eq_sort_key)
  with o show ?thesis by (simp add: entries_def)
qed

lemma entries_setProp_entries:
  assumes "distinct (map fst obj)"
  shows "entries (setProp (entries obj) k v) = entries (setProp obj k v)"
proof (rule entries_cong)
  show "mset (setProp (entries obj) k v) = mset (setProp obj k v)"
    using assms by (simp add: setProp_mset entries_distinct entries_mset)
  show "distinct (map fst (setProp (entries obj) k v))"
    using assms by (simp add: setProp_distinct entries_distinct)
  show "filter (\<lambda>p. \<not> isArrayIndex (fst p)) (setProp (entries obj) k v) =
        filter (\<lambda>p. \<not> isArrayIndex (fst p)) (setProp obj k v)"
    by (simp add: setProp_others entries_others)
qed

lemma created_snoc: "created (ps @ [(k, v)]) = setProp (created ps) k v"
  by (simp add: created_def)

lemma firstOccurrences_snoc:
  "firstOccurrences (ks @ [k]) = (if k \<in> set ks then firstOccurrences ks else firstOccurrences ks @ [k])"
  by (simp add: firstOccurrences_def)

lemma set_firstOccurrences: "set (firstOccurrences ks) = set ks"
  by (simp add: firstOccurrences_def)

lemma created_keys: "map fst (created ps) = firstOccurrences (map fst ps)"
proof (induction ps rule: rev_induct)
  case Nil
  then show ?case by (simp add: created_def firstOccurrences_def)
next
  case (snoc p ps)
  obtain k v where p: "p = (k, v)" by (cases p)
  have "k \<in> set (map fst (created ps)) \<longleftrightarrow> k \<in> fst ` set ps"
    by (simp add: snoc.IH set_firstOccurrences)
  then show ?case
    unfolding p created_snoc by (simp add: setProp_keys firstOccurrences_snoc snoc.IH)
qed

lemma created_distinct: "distinct (map fst (created ps))"
  by (simp add: created_keys firstOccurrences_def)

lemma created_map_of: "map_of (created ps) = map_of (rev ps)"
proof (induction ps rule: rev_induct)
  case Nil
  then show ?case by (simp add: created_def)
next
  case (snoc p ps)
  obtain k v where p: "p = (k, v)" by (cases p)
  show ?case unfolding p created_snoc by (simp add: setProp_map_of snoc.IH)
qed

lemma bindings_append: "bindings (xs @ ys) = bindings xs @ bindings ys"
  by (induction xs rule: bindings.induct) auto

lemma formAfter_snoc: "formAfter (evs @ [e]) = formStep (formAfter evs) e"
  by (simp add: formAfter_def)

lemma fileData_formAfter:
  "entries (fileData (formAfter evs)) = entries (created (bindings evs))"
proof (induction evs rule: rev_induct)
  case Nil
  then show ?case by (simp add: formAfter_def initialForm_def created_def)
next
  case (snoc e evs)
  show ?case
  proof (cases e)
    case (Change k v fo)
    show ?thesis
    proof (cases fo)
      case None
      with Change snoc show ?thesis
        by (simp add: formAfter_snoc bindings_append handleChange_def)
    next
      case (Some fl)
      have "entries (fileData (formAfter (evs @ [e]))) =
              entries (setProp (entries (fileData (formAfter evs))) k fl)"
        using Change Some by (simp add: formAfter_snoc handleChange_def spreadWith_def)
      also have "\<dots> = entries (setProp (entries (created (bindings evs))) k fl)"
        by (simp add: snoc.IH)
      also have "\<dots> = entries (setProp (created (bindings evs)) k fl)"
        by (rule entries_setProp_entries) (rule created_distinct)
      also have "\<dots> = entries (created (bindings (evs @ [e])))"
        using Change Some by (simp add: bindings_append created_snoc)
      finally show ?thesis .
    qed
  qed (use snoc in \<open>simp_all add: formAfter_snoc bindings_append handleDrop_def
        removeAdditionalFile_def handleDictation_def\<close>)
qed


lemma obj_by_keys:
  assumes "distinct (map fst obj)"
  shows "obj = map (\<lambda>k. (k, the (map_of obj k))) (map fst obj)"
proof -
  have "(fst p, the (map_of obj (fst p))) = p" if "p \<in> set obj" for p
  proof -
    obtain a b where p: "p = (a, b)" by (cases p)
    with that assms have "map_of obj a = Some b" by (simp add: map_of_is_SomeI)
    with p show ?thesis by simp
  qed
  then have "map (\<lambda>p. (fst p, the (map_of obj (fst p)))) obj = obj"
    by (simp add: map_idI)
  then show ?thesis by (simp add: o_def)
qed

lemma insort_key_map:
  "insort_key h (g x) (map g ys) = map g (insort_key (\<lambda>x. h (g x)) x ys)"
  by (induction ys) auto

lemma sort_key_map: "sort_key h (map g xs) = map g (sort_key (\<lambda>x. h (g x)) xs)"
  by (induction xs) (auto simp: insort_key_map)

lemma entries_by_keys:
  "entries (map (\<lambda>k. (k, g k)) ks) =
     map (\<lambda>k. (k, g k))
       (sort_key numValue (filter isArrayIndex ks) @ filter (\<lambda>k. \<not> isArrayIndex k) ks)"
  by (simp add: entries_def filter_map o_def sort_key_map)

lemma bound_files:
  "Object_values (fileData (formAfter evs)) = map (spec_last_file evs) (spec_bound_order evs)"
proof -
  let ?R = "created (bindings evs)"
  have "?R = map (\<lambda>k. (k, the (map_of ?R k))) (map fst ?R)"
    by (rule obj_by_keys) (rule created_distinct)
  then have "?R = map (\<lambda>k. (k, spec_last_file evs k)) (firstOccurrences (map fst (bindings evs)))"
    by (simp add: created_keys created_map_of spec_last_file_def)
  then have "entries ?R =
      map (\<lambda>k. (k, spec_last_file evs k)) (spec_bound_order evs)"
    by (simp add: spec_bound_order_def entries_by_keys Let_def)
  then show ?thesis
    by (simp add: Object_values_def fileData_formAfter o_def)
qed

lemma remove_by_index:
  "map snd (filter (\<lambda>p. fst p \<noteq> i) (zip [m ..< m + length fs] fs)) =
     (if i < m then fs else take (i - m) fs @ drop (Suc (i - m)) fs)"
proof (induction fs arbitrary: m)
  case Nil
  then show ?case by simp
next
  case (Cons a fs)
  have u: "[m ..< m + length (a # fs)] = m # [Suc m ..< Suc m + length fs]"
    by (subst upt_rec) simp
  show ?case
  proof (cases "i < m")
    case True
    then show ?thesis unfolding u using Cons.IH [of "Suc m"] by simp
  next
    case False
    show ?thesis
    proof (cases "i = m")
      case True
      then show ?thesis unfolding u using Cons.IH [of "Suc m"] by simp
    next
      case False
      with \<open>\<not> i < m\<close> have l: "Suc m \<le> i" by simp
      then have "i - m = Suc (i - Suc m)" by simp
      then show ?thesis unfolding u using Cons.IH [of "Suc m"] l False by simp
    qed
  qed
qed

lemma removeAdditionalFile_take_drop:
  "additionalFiles (removeAdditionalFile f i) =
     take i (additionalFiles f) @ drop (Suc i) (additionalFiles f)"
  using remove_by_index [of i 0 "additionalFiles f"] by (simp add: removeAdditionalFile_def)

lemma extras_formAfter: "additionalFiles (formAfter evs) = spec_extras evs"
proof (induction evs rule: rev_induct)
  case Nil
  then show ?case by (simp add: formAfter_def initialForm_def spec_extras_def)
next
  case (snoc e evs)
  have s: "spec_extras (evs @ [e]) =
      (case e of Drop dropped \<Rightarrow> spec_extras evs @ dropped
       | RemoveAdditional i \<Rightarrow> take i (spec_extras evs) @ drop (Suc i) (spec_extras evs)
       | _ \<Rightarrow> spec_extras evs)"
    by (cases e) (simp_all add: spec_extras_def)
  show ?case
  proof (cases e)
    case (Change k v fo)
    with snoc s show ?thesis
      by (cases fo) (simp_all add: formAfter_snoc handleChange_def)
  next
    case (RemoveAdditional i)
    with snoc s show ?thesis
      by (simp add: formAfter_snoc removeAdditionalFile_take_drop)
  qed (use snoc s in \<open>simp_all add: formAfter_snoc handleDrop_def handleDictation_def\<close>)
qed

text \<open>
  C7 (as amended). When no file has been removed from a descriptor, the file list that a
  submission of the dynamic form hands on is: the last file given to each descriptor id,
  the ids taken in the order in which they were first given a file, but with the ids that
  are array indices first and in ascending numeric order; then the extra files, in the
  order of their attachment.
\<close>

theorem submitted_files_order:
  assumes "\<forall>e\<in>set evs. \<not> isRemoval e"
  shows "fst (snd (handleSubmit (formAfter evs) useTurbo)) =
           map (spec_last_file evs) (spec_bound_order evs) @ spec_extras evs"
  by (simp add: handleSubmit_def bound_files extras_formAfter)

lemma idx_examples:
  "isArrayIndex ''10''" "isArrayIndex ''9''" "\<not> isArrayIndex ''ticket''"
  "\<not> isArrayIndex ''passport''" "\<not> isArrayIndex ''city''"
  "numValue ''10'' = 10" "numValue ''9'' = 9"
  by (simp_all add: isArrayIndex_def numValue_def digitValue_def toString.simps digit_char_def)

theorem submitted_files_order_witness:
  "filter isRemoval mixedIds = [] \<and>
   fst (snd (handleSubmit (formAfter mixedIds) True)) =
     [pngFile ''nine.png'', pngFile ''ten.png'', pngFile ''ticket2.png'',
      pngFile ''passport.png'', pngFile ''map.png'']"
proof -
  have r: "\<forall>e\<in>set mixedIds. \<not> isRemoval e"
    by (simp add: mixedIds_def isRemoval_def)
  have o: "spec_bound_order mixedIds = [''9'', ''10'', ''ticket'', ''passport'']"
    by (simp add: spec_bound_order_def mixedIds_def firstOccurrences_def idx_examples)
  have l: "map (spec_last_file mixedIds) [''9'', ''10'', ''ticket'', ''passport''] =
      [pngFile ''nine.png'', pngFile ''ten.png'', pngFile ''ticket2.png'', pngFile ''passport.png'']"
    by (simp add: spec_last_file_def mixedIds_def)
  have x: "spec_extras mixedIds = [pngFile ''map.png'']"
    by (simp add: spec_extras_def mixedIds_def)
  show ?thesis
    using submitted_files_order [OF r, of True] r l by (simp add: o x filter_empty_conv)
qed

text \<open>
  The claim as first stated puts the descriptors' files in descriptor order. With the
  descriptors passport, ticket and the ticket attached first, the submission hands on
  ticket, passport, map; descriptor order would be passport, ticket, map.
\<close>

theorem descriptor_order_counterexample:
  "map field_id [passportField, ticketField] = [''passport'', ''ticket''] \<and>
   fst (snd (handleSubmit (formAfter ticketFirst) False)) =
     [pngFile ''ticket.png'', pngFile ''passport.png'', pngFile ''map.png''] \<and>
   spec_descriptor_files [passportField, ticketField] (formAfter ticketFirst) @
     additionalFiles (formAfter ticketFirst) =
     [pngFile ''passport.png'', pngFile ''ticket.png'', pngFile ''map.png'']"
proof -
  have f: "formAfter ticketFirst =
      \<lparr> formData = [(''ticket'', Some ''ticket.png''), (''passport'', Some ''passport.png'')],
        fileData = [(''ticket'', pngFile ''ticket.png''), (''passport'', pngFile ''passport.png'')],
        additionalText = [], additionalFiles = [pngFile ''map.png''] \<rparr>"
    by (simp add: formAfter_def ticketFirst_def initialForm_def handleChange_def handleDrop_def
        spreadWith_def entries_def idx_examples)
  show ?thesis
    unfolding f
    by (simp add: handleSubmit_def Object_values_def entries_def idx_examples
        spec_descriptor_files_def getProp_def passportField_def ticketField_def)
qed

section \<open>Properties of the completion indicator\<close>







lemma toString_digits: "set (toString n) \<subseteq> set ''0123456789''"
proof (induction n rule: toString.induct)
  case (1 n)
  have d: "digit_char m \<in> set ''0123456789''" if "m < 10" for m
    unfolding digit_char_def using that by (intro nth_mem) simp
  show ?case
  proof (cases "n < 10")
    case True
    with d [of n] show ?thesis by (subst toString.simps) simp
  next
    case False
    have "n mod 10 < 10" by simp
    from d [OF this] 1 False show ?thesis by (subst toString.simps) simp
  qed
qed

lemma isArrayIndex_digits: "isArrayIndex k \<Longrightarrow> set k \<subseteq> set ''0123456789''"
  by (metis isArrayIndex_def toString_digits)

lemma not_index_q [simp]: "\<not> isArrayIndex (CHR ''q'' # k)"
  using isArrayIndex_digits [of "CHR ''q'' # k"] by auto


lemma digitValue_digit_char: "d < 10 \<Longrightarrow> digitValue (digit_char d) = d"
  by (auto simp: eval_nat_numeral less_Suc_eq digitValue_def digit_char_def)

lemma numValue_snoc: "numValue (k @ [c]) = 10 * numValue k + digitValue c"
  by (simp add: numValue_def)

lemma numValue_toString: "numValue (toString n) = n"
proof (induction n rule: toString.induct)
  case (1 n)
  show ?case
  proof (cases "n < 10")
    case True
    then show ?thesis
      by (subst toString.simps) (simp add: numValue_def digitValue_digit_char)
  next
    case False
    with 1 have "numValue (toString (n div 10)) = n div 10" by simp
    with False show ?thesis
      by (subst toString.simps) (simp add: numValue_snoc digitValue_digit_char)
  qed
qed


lemma isArrayIndex_toString: "isArrayIndex (toString n) \<longleftrightarrow> n < 4294967295"
  by (simp add: isArrayIndex_def numValue_toString)



lemma set_entries: "set (entries obj) = set obj"
  by (metis entries_mset set_mset_mset)


lemma setProp_key_set: "fst ` set (setProp obj k v) = insert k (fst ` set obj)"
  by (induction obj) auto


lemma changedIds_append: "changedIds (xs @ ys) = changedIds xs @ changedIds ys"
  by (induction xs rule: changedIds.induct) auto

lemma formData_invariant:
  "distinct (map fst (formData (formAfter evs))) \<and>
   fst ` set (formData (formAfter evs)) = set (changedIds evs)"
proof (induction evs rule: rev_induct)
  case Nil
  then show ?case by (simp add: formAfter_def initialForm_def)
next
  case (snoc e evs)
  show ?case
  proof (cases e)
    case (Change k v fo)
    have "formData (formAfter (evs @ [e])) = setProp (entries (formData (formAfter evs))) k v"
      using Change by (cases fo) (simp_all add: formAfter_snoc handleChange_def spreadWith_def)
    with snoc Change show ?thesis
      by (simp add: setProp_distinct entries_distinct setProp_key_set set_entries changedIds_append)
  qed (use snoc in \<open>simp_all add: formAfter_snoc changedIds_append handleDrop_def
        removeAdditionalFile_def handleDictation_def\<close>)
qed
















lemma doubles_agree:
  "fl64 (23 / 40) = 2589569785738035 / 4503599627370496"
  "fl64 (2589569785738035 / 4503599627370496 * 100) = 8092405580431359 / 140737488355328"
  "fl64 (1 / 3) = 6004799503160661 / 18014398509481984"
  "fl64 (6004799503160661 / 18014398509481984 * 100) = 2345624805922133 / 70368744177664"
  by code_simp+








end
